theory Spec2Isabelle
  imports Main
begin

section \<open>Values, dictionaries and errors\<close>

text \<open>
  The workflow engine of \<^verbatim>\<open>agentic/core/workflow.py\<close> and
  \<^verbatim>\<open>agentic/core/workflow_step.py\<close> moves untyped Python values around
  (\<^verbatim>\<open>Any\<close>). The model keeps the JSON-like fragment: \<^verbatim>\<open>None\<close>, booleans,
  unbounded integers, strings, lists and dictionaries with string keys. A dictionary is
  an association list in insertion order; a lookup takes the first entry of a key.
  Values are copied, not shared: where the code stores the very object of
  \<^verbatim>\<open>context.data\<close> as a result, a later write to \<^verbatim>\<open>context.data\<close> shows in the
  stored result too, and the model does not follow that. What is proved below about
  \<open>step_results\<close> after a write is therefore about its keys and about the entry
  written, not about the values stored under other keys.
\<close>

datatype pyval =
    VNone
  | VBool bool
  | VInt int
  | VStr string
  | VList "pyval list"
  | VDict "(string \<times> pyval) list"

type_synonym dict = "(string \<times> pyval) list"

text \<open>
  Exceptions are values. \<open>ToolExecutionError tool_name message\<close> is the class of
  \<^verbatim>\<open>agentic/core/tool.py\<close>; \<open>ToolException msg\<close> stands for whatever exception
  a tool's own \<^verbatim>\<open>validate\<close> or \<^verbatim>\<open>execute\<close> raised, known by its
  \<^verbatim>\<open>str()\<close>; \<open>CallableException msg\<close> for what an injected predicate raised.
\<close>

datatype error =
    ValueError string
  | KeyError string
  | RuntimeError string
  | IndexError string
  | AttributeError string
  | SyntaxError string
  | ToolExecutionError string string
  | ToolException string
  | CallableException string

text \<open>
  \<^verbatim>\<open>str(exc)\<close>, which \<^verbatim>\<open>_run_tool_step\<close> takes of what its \<^verbatim>\<open>try\<close> block
  caught: a \<^verbatim>\<open>ToolExecutionError\<close>, whose \<^verbatim>\<open>__init__\<close> builds the text, or a
  tool's own exception. The other classes never reach it; their equations give the
  message as it is (Python would quote the argument of a \<^verbatim>\<open>KeyError\<close>).
\<close>

fun str_of_error :: "error \<Rightarrow> string" where
  "str_of_error (ValueError m) = m"
| "str_of_error (KeyError m) = m"
| "str_of_error (RuntimeError m) = m"
| "str_of_error (IndexError m) = m"
| "str_of_error (AttributeError m) = m"
| "str_of_error (SyntaxError m) = m"
| "str_of_error (ToolExecutionError tn m) = ''Tool '' @ [CHR 0x27] @ tn @ [CHR 0x27] @ '' execution failed: '' @ m"
| "str_of_error (ToolException m) = m"
| "str_of_error (CallableException m) = m"

text \<open>Python truthiness, as \<^verbatim>\<open>if x:\<close> and \<^verbatim>\<open>while x:\<close> use it.\<close>

fun truthy :: "pyval \<Rightarrow> bool" where
  "truthy VNone = False"
| "truthy (VBool b) = b"
| "truthy (VInt i) = (i \<noteq> 0)"
| "truthy (VStr s) = (s \<noteq> [])"
| "truthy (VList xs) = (xs \<noteq> [])"
| "truthy (VDict d) = (d \<noteq> [])"

text \<open>An \<^verbatim>\<open>Optional[str]\<close> or \<^verbatim>\<open>Optional[List[str]]\<close> is falsy when it is
  \<^verbatim>\<open>None\<close> and when it is empty.\<close>

fun truthy_opt :: "'a list option \<Rightarrow> bool" where
  "truthy_opt None = False"
| "truthy_opt (Some xs) = (xs \<noteq> [])"

text \<open>\<^verbatim>\<open>d.get(k, default)\<close> and \<^verbatim>\<open>d[k] = v\<close> on a dictionary.\<close>

definition dict_get :: "(string \<times> 'v) list \<Rightarrow> string \<Rightarrow> 'v \<Rightarrow> 'v" where
  "dict_get d k dflt = (case map_of d k of None \<Rightarrow> dflt | Some v \<Rightarrow> v)"

fun dict_set :: "string \<Rightarrow> 'v \<Rightarrow> (string \<times> 'v) list \<Rightarrow> (string \<times> 'v) list" where
  "dict_set k v [] = [(k, v)]"
| "dict_set k v (p # ps) = (if fst p = k then (k, v) # ps else p # dict_set k v ps)"

text \<open>\<^verbatim>\<open>obj.get(k, default)\<close> on an arbitrary value: only a dictionary has the method.\<close>

fun py_get :: "pyval \<Rightarrow> string \<Rightarrow> pyval \<Rightarrow> error + pyval" where
  "py_get (VDict d) k dflt = Inr (dict_get d k dflt)"
| "py_get _ k dflt = Inl (AttributeError ''object has no attribute get'')"

section \<open>Template resolution (\<^verbatim>\<open>WorkflowStep.resolve_params\<close>)\<close>

text \<open>\<^verbatim>\<open>path.split(".")\<close> and \<^verbatim>\<open>".".join(parts)\<close>.\<close>

fun split_on :: "char \<Rightarrow> string \<Rightarrow> string list" where
  "split_on c [] = [[]]"
| "split_on c (x # xs) =
     (if x = c then [] # split_on c xs
      else (case split_on c xs of [] \<Rightarrow> [[x]] | p # ps \<Rightarrow> (x # p) # ps))"

fun join_with :: "string \<Rightarrow> string list \<Rightarrow> string" where
  "join_with sep [] = []"
| "join_with sep [p] = p"
| "join_with sep (p # q # ps) = p @ sep @ join_with sep (q # ps)"

text \<open>
  \<^verbatim>\<open>key.isdigit()\<close> and \<^verbatim>\<open>int(key)\<close>. A \<open>char\<close> is a code point below 256.
  There \<^verbatim>\<open>isdigit\<close> holds of the ten ASCII digits and of the superscripts
  \<^verbatim>\<open>U+00B2\<close>, \<^verbatim>\<open>U+00B3\<close> and \<^verbatim>\<open>U+00B9\<close>, while \<^verbatim>\<open>int\<close> reads the ASCII
  digits only and raises \<^verbatim>\<open>ValueError\<close> on a superscript.
\<close>

definition ascii_digit :: "char \<Rightarrow> bool" where
  "ascii_digit c = (48 \<le> (of_char c :: nat) \<and> (of_char c :: nat) \<le> 57)"

definition isdigit :: "string \<Rightarrow> bool" where
  "isdigit s =
     (s \<noteq> [] \<and>
      list_all (\<lambda>c. ascii_digit c \<or> (of_char c :: nat) = 178 \<or> (of_char c :: nat) = 179 \<or>
                     (of_char c :: nat) = 185) s)"

definition int_of_digits :: "string \<Rightarrow> error + nat" where
  "int_of_digits s =
     (if s \<noteq> [] \<and> list_all ascii_digit s
      then Inr (foldl (\<lambda>acc c. 10 * acc + (of_char c - 48)) 0 s)
      else Inl (ValueError ''invalid literal for int() with base 10''))"

text \<open>
  \<^verbatim>\<open>_get_nested_value(obj, path)\<close>: a dictionary is read with \<^verbatim>\<open>get\<close>, a list
  with \<^verbatim>\<open>obj[int(key)]\<close> when \<^verbatim>\<open>key.isdigit()\<close>, which raises
  \<^verbatim>\<open>IndexError\<close> past the end (and \<^verbatim>\<open>ValueError\<close> when \<^verbatim>\<open>int\<close> does);
  anything else, and a \<^verbatim>\<open>None\<close> on the way, gives \<^verbatim>\<open>None\<close>.
\<close>

fun get_nested_value :: "pyval \<Rightarrow> string list \<Rightarrow> error + pyval" where
  "get_nested_value obj [] = Inr obj"
| "get_nested_value (VDict d) (key # rest) =
     (let obj' = dict_get d key VNone
      in if obj' = VNone then Inr VNone else get_nested_value obj' rest)"
| "get_nested_value (VList xs) (key # rest) =
     (if isdigit key then
        (case int_of_digits key of
           Inl e \<Rightarrow> Inl e
         | Inr i \<Rightarrow>
             if i < length xs then
               (let obj' = xs ! i
                in if obj' = VNone then Inr VNone else get_nested_value obj' rest)
             else Inl (IndexError ''list index out of range''))
      else Inr VNone)"
| "get_nested_value _ (key # rest) = Inr VNone"

text \<open>
  \<^verbatim>\<open>_resolve_path(path, context)\<close>. The argument \<open>context\<close> is the dictionary the
  caller built, \<^verbatim>\<open>{"context": context.data, "step_results": context.step_results}\<close>;
  a path that starts with \<^verbatim>\<open>context\<close> is looked up in that dictionary itself, under
  the rest of the path joined by dots.
\<close>

definition resolve_path :: "string \<Rightarrow> dict \<Rightarrow> error + pyval" where
  "resolve_path path context =
     (let parts = split_on CHR ''.'' path in
      if hd parts = ''context'' then
        Inr (dict_get context (join_with ''.'' (tl parts)) VNone)
      else
        (let step_id = hd parts;
             step_results = dict_get context ''step_results'' (VDict [])
         in case py_get step_results step_id (VDict []) of
              Inl e \<Rightarrow> Inl e
            | Inr step_result \<Rightarrow>
                if length parts = 2 then
                  (if parts ! 1 = ''result'' then py_get step_result ''result'' VNone
                   else py_get step_result (parts ! 1) VNone)
                else get_nested_value step_result (tl parts)))"

text \<open>\<^verbatim>\<open>value.startswith("${") and value.endswith("}")\<close>, and \<^verbatim>\<open>value[2:-1]\<close>.\<close>

definition is_template :: "string \<Rightarrow> bool" where
  "is_template s = (take 2 s = ''${'' \<and> s \<noteq> [] \<and> last s = CHR ''}'')"

definition template_path :: "string \<Rightarrow> string" where
  "template_path s = butlast (drop 2 s)"

text \<open>
  \<^verbatim>\<open>_resolve_value(value, context)\<close>, recursive through dictionaries and lists. The
  comprehensions evaluate left to right, so the first exception is the one raised.
\<close>

fun resolve_value :: "pyval \<Rightarrow> dict \<Rightarrow> error + pyval"
  and resolve_list :: "pyval list \<Rightarrow> dict \<Rightarrow> error + pyval list"
  and resolve_items :: "(string \<times> pyval) list \<Rightarrow> dict \<Rightarrow> error + (string \<times> pyval) list"
where
  "resolve_value (VStr s) context =
     (if is_template s then resolve_path (template_path s) context else Inr (VStr s))"
| "resolve_value (VDict kvs) context =
     (case resolve_items kvs context of Inl e \<Rightarrow> Inl e | Inr kvs' \<Rightarrow> Inr (VDict kvs'))"
| "resolve_value (VList xs) context =
     (case resolve_list xs context of Inl e \<Rightarrow> Inl e | Inr ys \<Rightarrow> Inr (VList ys))"
| "resolve_value VNone context = Inr VNone"
| "resolve_value (VBool b) context = Inr (VBool b)"
| "resolve_value (VInt i) context = Inr (VInt i)"
| "resolve_list [] context = Inr []"
| "resolve_list (x # xs) context =
     (case resolve_value x context of
        Inl e \<Rightarrow> Inl e
      | Inr y \<Rightarrow> (case resolve_list xs context of Inl e \<Rightarrow> Inl e | Inr ys \<Rightarrow> Inr (y # ys)))"
| "resolve_items [] context = Inr []"
| "resolve_items (kv # kvs) context =
     (case resolve_value (snd kv) context of
        Inl e \<Rightarrow> Inl e
      | Inr y \<Rightarrow> (case resolve_items kvs context of
                   Inl e \<Rightarrow> Inl e
                 | Inr kvs' \<Rightarrow> Inr ((fst kv, y) # kvs')))"

text \<open>\<^verbatim>\<open>resolve_params\<close>: every parameter of the step is resolved, in order.\<close>

definition resolve_params_of :: "dict \<Rightarrow> dict \<Rightarrow> error + dict" where
  "resolve_params_of tool_params context = resolve_items tool_params context"

section \<open>Steps, tools, context and workflow\<close>

datatype StepType = TOOL | CONDITION | PARALLEL | LOOP

text \<open>
  An injected predicate (\<^verbatim>\<open>Callable[[Dict[str, Any]], bool]\<close>) is a function from the
  dictionary it is called with to the value it returns, or to the exception it raises.
\<close>

type_synonym predicate = "dict \<Rightarrow> error + pyval"

record workflow_step =
  step_id :: string
  step_type :: StepType
  step_name :: string
  step_description :: "string option"
  tool_name :: "string option"
  tool_params :: dict
  condition :: "predicate option"
  condition_expression :: "string option"
  on_true :: "string list option"
  on_false :: "string list option"
  parallel_steps :: "string list option"
  loop_steps :: "string list option"
  loop_condition :: "predicate option"
  loop_expression :: "string option"
  max_iterations :: int
  output_key :: "string option"
  on_error :: "string option"
  continue_on_error :: bool

text \<open>
  The capability contract of \<^verbatim>\<open>Tool\<close>: a name, \<^verbatim>\<open>validate(**params)\<close> and
  \<^verbatim>\<open>execute(**params)\<close>; each either returns or raises an exception whose
  \<^verbatim>\<open>str()\<close> is the string on the left. Tools are taken to be functions of their
  parameters.
\<close>

record tool =
  name :: string
  validate :: "dict \<Rightarrow> string + bool"
  execute :: "dict \<Rightarrow> string + pyval"

record workflow_context =
  data :: dict
  step_results :: "(string \<times> dict) list"
  last_step_id :: "string option"
  last_result :: pyval

record workflow =
  wf_id :: string
  wf_name :: string
  steps :: "string \<rightharpoonup> workflow_step"
  start_step_id :: string

definition empty_context :: workflow_context where
  "empty_context = \<lparr>data = [], step_results = [], last_step_id = None, last_result = VNone\<rparr>"

text \<open>A handler returns its value with the context as it left it, or raises, leaving the
  context as it was at the \<^verbatim>\<open>raise\<close> (the context object is mutated in place).\<close>

type_synonym 'a outcome = "(error \<times> workflow_context) + ('a \<times> workflow_context)"

definition quoted :: "string \<Rightarrow> string" where
  "quoted s = [CHR 0x27] @ s @ [CHR 0x27]"

text \<open>The dictionary every handler passes to templates and predicates:
  \<^verbatim>\<open>{"context": context.data, "step_results": context.step_results}\<close>.\<close>

definition step_env :: "workflow_context \<Rightarrow> dict" where
  "step_env ctx =
     [(''context'', VDict (data ctx)),
      (''step_results'', VDict (map (\<lambda>kd. (fst kd, VDict (snd kd))) (step_results ctx)))]"

definition get_step :: "workflow \<Rightarrow> string \<Rightarrow> error + workflow_step" where
  "get_step w sid =
     (case steps w sid of
        Some s \<Rightarrow> Inr s
      | None \<Rightarrow> Inl (KeyError (''Step '' @ quoted sid @ '' not found in workflow '' @ quoted (wf_id w))))"

section \<open>Condition evaluation\<close>

text \<open>
  \<^verbatim>\<open>eval(expression, {"context": context})\<close> is Python's own evaluator, not code of
  this repository: it is the parameter \<open>ev\<close>, which gives the value of the expression in
  the dictionary or the \<^verbatim>\<open>Exception\<close> it raises. In
  \<^verbatim>\<open>if self.condition:\<close> a function that is present is truthy; an expression is
  truthy when it is present and not the empty string.
\<close>

type_synonym evaluator = "string \<Rightarrow> dict \<Rightarrow> error + pyval"

definition evaluate_condition :: "evaluator \<Rightarrow> workflow_step \<Rightarrow> dict \<Rightarrow> error + pyval" where
  "evaluate_condition ev step context =
     (case condition step of
        Some f \<Rightarrow> f context
      | None \<Rightarrow>
          if truthy_opt (condition_expression step) then
            (case ev (the (condition_expression step)) context of
               Inl e \<Rightarrow> Inr (VBool False)
             | Inr v \<Rightarrow> Inr v)
          else Inr (VBool True))"

definition evaluate_loop_condition :: "evaluator \<Rightarrow> workflow_step \<Rightarrow> dict \<Rightarrow> error + pyval" where
  "evaluate_loop_condition ev step context =
     (case loop_condition step of
        Some f \<Rightarrow> f context
      | None \<Rightarrow>
          if truthy_opt (loop_expression step) then
            (case ev (the (loop_expression step)) context of
               Inl e \<Rightarrow> Inr (VBool False)
             | Inr v \<Rightarrow> Inr v)
          else Inr (VBool False))"

section \<open>Step handlers\<close>

text \<open>The body of the \<^verbatim>\<open>try\<close> block of \<^verbatim>\<open>_run_tool_step\<close> up to the tool's
  result: validation, then execution.\<close>

definition call_tool :: "tool \<Rightarrow> workflow_step \<Rightarrow> dict \<Rightarrow> error + pyval" where
  "call_tool t step params =
     (case validate t params of
        Inl m \<Rightarrow> Inl (ToolException m)
      | Inr ok \<Rightarrow>
          if \<not> ok then
            Inl (ToolExecutionError (name t)
                  (''Validation failed for tool '' @ quoted (name t) @ '' in step '' @ quoted (step_id step)))
          else
            (case execute t params of
               Inl m \<Rightarrow> Inl (ToolException m)
             | Inr result \<Rightarrow> Inr result))"

text \<open>\<^verbatim>\<open>context.step_results[step.id] = step_result\<close>, with the two keys the handler
  fills in.\<close>

definition record_result :: "string \<Rightarrow> pyval \<Rightarrow> pyval \<Rightarrow> workflow_context \<Rightarrow> workflow_context" where
  "record_result sid result err ctx =
     ctx\<lparr>step_results := dict_set sid [(''result'', result), (''error'', err)] (step_results ctx)\<rparr>"

text \<open>
  \<^verbatim>\<open>_run_tool_step\<close>. The checks of the tool name and of the registry and the
  resolution of the parameters come before the \<^verbatim>\<open>try\<close> block, so what they raise
  leaves the handler whatever the error wiring of the step; a registered tool object is
  truthy. The value returned is the next step id.
\<close>

definition run_tool_step ::
  "workflow_step \<Rightarrow> (string \<rightharpoonup> tool) \<Rightarrow> workflow_context \<Rightarrow> string option outcome" where
  "run_tool_step step tools ctx =
     (if \<not> truthy_opt (tool_name step) then
        Inl (ValueError (''Step '' @ quoted (step_id step) @ '' is TOOL type but has no tool_name''), ctx)
      else
        (case tools (the (tool_name step)) of
           None \<Rightarrow>
             Inl (ToolExecutionError (the (tool_name step))
                   (''Tool '' @ quoted (the (tool_name step)) @ '' not found for step '' @ quoted (step_id step)),
                  ctx)
         | Some t \<Rightarrow>
             (case resolve_params_of (tool_params step) (step_env ctx) of
                Inl e \<Rightarrow> Inl (e, ctx)
              | Inr params \<Rightarrow>
                  (case call_tool t step params of
                     Inr result \<Rightarrow>
                       (let ctx1 = ctx\<lparr>last_result := result\<rparr>;
                            ctx2 = (if truthy_opt (output_key step)
                                    then ctx1\<lparr>data := dict_set (the (output_key step)) result (data ctx1)\<rparr>
                                    else ctx1)
                        in Inr (None, record_result (step_id step) result VNone ctx2))
                   | Inl exc \<Rightarrow>
                       (let ctx1 = ctx\<lparr>last_result := VNone\<rparr> in
                        if truthy_opt (on_error step) then
                          Inr (on_error step,
                               record_result (step_id step) VNone (VStr (str_of_error exc)) ctx1)
                        else if \<not> continue_on_error step then Inl (exc, ctx1)
                        else Inr (None,
                               record_result (step_id step) VNone (VStr (str_of_error exc)) ctx1))))))"

text \<open>\<^verbatim>\<open>branch = "on_true" if condition_met else "on_false"\<close> and
  \<^verbatim>\<open>next_steps = step.on_true if condition_met else step.on_false\<close>.\<close>

definition branch_name :: "pyval \<Rightarrow> string" where
  "branch_name condition_met = (if truthy condition_met then ''on_true'' else ''on_false'')"

definition branch_steps :: "workflow_step \<Rightarrow> pyval \<Rightarrow> string list option" where
  "branch_steps step condition_met = (if truthy condition_met then on_true step else on_false step)"

definition multiple_next_error :: "workflow_step \<Rightarrow> pyval \<Rightarrow> error" where
  "multiple_next_error step condition_met =
     ValueError (''Step '' @ quoted (step_id step) @ '' '' @ branch_name condition_met @
       '' has multiple next steps defined. Use a dedicated PARALLEL step for fan-out.'')"

definition run_condition_step ::
  "evaluator \<Rightarrow> workflow_step \<Rightarrow> workflow_context \<Rightarrow> string option outcome" where
  "run_condition_step ev step ctx =
     (case evaluate_condition ev step (step_env ctx) of
        Inl e \<Rightarrow> Inl (e, ctx)
      | Inr condition_met \<Rightarrow>
          (let next_steps = branch_steps step condition_met
           in if \<not> truthy_opt next_steps then Inr (None, ctx)
              else if length (the next_steps) > 1 then Inl (multiple_next_error step condition_met, ctx)
              else Inr (Some (hd (the next_steps)), ctx)))"

text \<open>
  The nested chain \<^verbatim>\<open>while nested_current:\<close> of the PARALLEL and LOOP handlers. It has
  no cycle guard, so it need not end: the first argument bounds the number of passes, and
  \<open>None\<close> says that the bound was reached.
\<close>

fun run_nested_chain ::
  "nat \<Rightarrow> workflow \<Rightarrow> (string \<rightharpoonup> tool) \<Rightarrow> workflow_context \<Rightarrow> string option
     \<Rightarrow> ((error \<times> workflow_context) + workflow_context) option" where
  "run_nested_chain n w tools ctx None = Some (Inr ctx)"
| "run_nested_chain 0 w tools ctx (Some c) = (if c = [] then Some (Inr ctx) else None)"
| "run_nested_chain (Suc n) w tools ctx (Some c) =
     (if c = [] then Some (Inr ctx)
      else
        (case get_step w c of
           Inl e \<Rightarrow> Some (Inl (e, ctx))
         | Inr nested_step \<Rightarrow>
             if step_type nested_step = TOOL then
               (case run_tool_step nested_step tools ctx of
                  Inl ec \<Rightarrow> Some (Inl ec)
                | Inr (nested_current, ctx') \<Rightarrow> run_nested_chain n w tools ctx' nested_current)
             else Some (Inr ctx)))"

text \<open>
  One pass of \<^verbatim>\<open>for child_step_id in ...\<close>, which the PARALLEL and the LOOP handler
  spell out identically: a TOOL child runs (its next step is dropped), a CONDITION child
  runs and its branch starts a nested chain, any other child is skipped.
\<close>

definition run_child ::
  "nat \<Rightarrow> evaluator \<Rightarrow> workflow \<Rightarrow> (string \<rightharpoonup> tool) \<Rightarrow> workflow_context \<Rightarrow> string
     \<Rightarrow> ((error \<times> workflow_context) + workflow_context) option" where
  "run_child fuel ev w tools ctx child_step_id =
     (case get_step w child_step_id of
        Inl e \<Rightarrow> Some (Inl (e, ctx))
      | Inr child_step \<Rightarrow>
          if step_type child_step = TOOL then
            (case run_tool_step child_step tools ctx of
               Inl ec \<Rightarrow> Some (Inl ec)
             | Inr (next_id, ctx') \<Rightarrow> Some (Inr ctx'))
          else if step_type child_step = CONDITION then
            (case run_condition_step ev child_step ctx of
               Inl ec \<Rightarrow> Some (Inl ec)
             | Inr (next_id, ctx') \<Rightarrow>
                 if truthy_opt next_id then run_nested_chain fuel w tools ctx' next_id
                 else Some (Inr ctx'))
          else Some (Inr ctx))"

fun run_children ::
  "nat \<Rightarrow> evaluator \<Rightarrow> workflow \<Rightarrow> (string \<rightharpoonup> tool) \<Rightarrow> workflow_context \<Rightarrow> string list
     \<Rightarrow> ((error \<times> workflow_context) + workflow_context) option" where
  "run_children fuel ev w tools ctx [] = Some (Inr ctx)"
| "run_children fuel ev w tools ctx (child_step_id # rest) =
     (case run_child fuel ev w tools ctx child_step_id of
        None \<Rightarrow> None
      | Some (Inl ec) \<Rightarrow> Some (Inl ec)
      | Some (Inr ctx') \<Rightarrow> run_children fuel ev w tools ctx' rest)"

definition run_parallel_step ::
  "nat \<Rightarrow> evaluator \<Rightarrow> workflow \<Rightarrow> workflow_step \<Rightarrow> (string \<rightharpoonup> tool) \<Rightarrow> workflow_context
     \<Rightarrow> string option outcome option" where
  "run_parallel_step fuel ev w step tools ctx =
     (if \<not> truthy_opt (parallel_steps step) then Some (Inr (None, ctx))
      else
        (case run_children fuel ev w tools ctx (the (parallel_steps step)) of
           None \<Rightarrow> None
         | Some (Inl ec) \<Rightarrow> Some (Inl ec)
         | Some (Inr ctx') \<Rightarrow> Some (Inr (None, ctx'))))"

text \<open>
  The \<^verbatim>\<open>while iterations < step.max_iterations and step.evaluate_loop_condition(...)\<close>
  loop of \<^verbatim>\<open>_run_loop_step\<close>, from a value of the local \<open>iterations\<close>. It returns the
  final value of \<open>iterations\<close> with the outcome. The recursion ends because
  \<open>max_iterations - iterations\<close> decreases.
\<close>

function loop_while ::
  "nat \<Rightarrow> evaluator \<Rightarrow> workflow \<Rightarrow> workflow_step \<Rightarrow> (string \<rightharpoonup> tool) \<Rightarrow> int \<Rightarrow> workflow_context
     \<Rightarrow> (int \<times> ((error \<times> workflow_context) + workflow_context)) option" where
  "loop_while fuel ev w step tools iterations ctx =
     (if iterations < max_iterations step then
        (case evaluate_loop_condition ev step (step_env ctx) of
           Inl e \<Rightarrow> Some (iterations, Inl (e, ctx))
         | Inr v \<Rightarrow>
             if truthy v then
               (case run_children fuel ev w tools ctx (the (loop_steps step)) of
                  None \<Rightarrow> None
                | Some (Inl ec) \<Rightarrow> Some (iterations + 1, Inl ec)
                | Some (Inr ctx') \<Rightarrow> loop_while fuel ev w step tools (iterations + 1) ctx')
             else Some (iterations, Inr ctx))
      else Some (iterations, Inr ctx))"
  by pat_completeness auto
termination
  by (relation "measure (\<lambda>(fuel, ev, w, step, tools, iterations, ctx).
                  nat (max_iterations step - iterations))") auto

definition run_loop_step ::
  "nat \<Rightarrow> evaluator \<Rightarrow> workflow \<Rightarrow> workflow_step \<Rightarrow> (string \<rightharpoonup> tool) \<Rightarrow> workflow_context
     \<Rightarrow> string option outcome option" where
  "run_loop_step fuel ev w step tools ctx =
     (if \<not> truthy_opt (loop_steps step) then Some (Inr (None, ctx))
      else
        (case loop_while fuel ev w step tools 0 ctx of
           None \<Rightarrow> None
         | Some (iterations, Inl ec) \<Rightarrow> Some (Inl ec)
         | Some (iterations, Inr ctx') \<Rightarrow> Some (Inr (None, ctx'))))"

section \<open>The interpreter (\<^verbatim>\<open>Workflow.run\<close>)\<close>

text \<open>The dispatch on \<^verbatim>\<open>step.step_type\<close>; the enumeration has four members, so the
  final \<^verbatim>\<open>else\<close> of the source is never taken.\<close>

definition dispatch_step ::
  "nat \<Rightarrow> evaluator \<Rightarrow> workflow \<Rightarrow> workflow_step \<Rightarrow> (string \<rightharpoonup> tool) \<Rightarrow> workflow_context
     \<Rightarrow> string option outcome option" where
  "dispatch_step fuel ev w step tools ctx =
     (case step_type step of
        TOOL \<Rightarrow> Some (run_tool_step step tools ctx)
      | CONDITION \<Rightarrow> Some (run_condition_step ev step ctx)
      | PARALLEL \<Rightarrow> run_parallel_step fuel ev w step tools ctx
      | LOOP \<Rightarrow> run_loop_step fuel ev w step tools ctx)"

text \<open>One pass of \<^verbatim>\<open>while current_step_id:\<close> after the cycle guard: the step is looked
  up, \<^verbatim>\<open>last_step_id\<close> is set, and the handler runs.\<close>

definition run_current ::
  "nat \<Rightarrow> evaluator \<Rightarrow> workflow \<Rightarrow> (string \<rightharpoonup> tool) \<Rightarrow> workflow_context \<Rightarrow> string
     \<Rightarrow> string option outcome option" where
  "run_current fuel ev w tools ctx current_step_id =
     (case get_step w current_step_id of
        Inl e \<Rightarrow> Some (Inl (e, ctx))
      | Inr step \<Rightarrow> dispatch_step fuel ev w step tools (ctx\<lparr>last_step_id := Some (step_id step)\<rparr>))"

definition cycle_error :: "workflow \<Rightarrow> string \<Rightarrow> error" where
  "cycle_error w current_step_id =
     RuntimeError (''Detected loop at step '' @ quoted current_step_id @ '' in workflow '' @
       quoted (wf_id w) @
       ''. Configure LOOP-type steps explicitly instead of cyclic references.'')"

text \<open>
  The loop of \<^verbatim>\<open>Workflow.run\<close> from a state of its locals \<open>visited\<close> and
  \<open>current_step_id\<close>. The result is the list \<open>visited\<close> at the exit (the step ids
  dispatched at top level, in order), the exception that left the loop if one did, and
  the context. The first argument bounds the passes of this loop and of the nested
  chains; \<open>None\<close> says that the bound was reached.
\<close>

fun run_from ::
  "nat \<Rightarrow> evaluator \<Rightarrow> workflow \<Rightarrow> (string \<rightharpoonup> tool) \<Rightarrow> string list \<Rightarrow> workflow_context
     \<Rightarrow> string option \<Rightarrow> (string list \<times> error option \<times> workflow_context) option" where
  "run_from n ev w tools visited ctx None = Some (visited, None, ctx)"
| "run_from 0 ev w tools visited ctx (Some c) =
     (if c = [] then Some (visited, None, ctx) else None)"
| "run_from (Suc n) ev w tools visited ctx (Some c) =
     (if c = [] then Some (visited, None, ctx)
      else if c \<in> set visited then Some (visited, Some (cycle_error w c), ctx)
      else
        (case run_current n ev w tools ctx c of
           None \<Rightarrow> None
         | Some (Inl (e, ctx')) \<Rightarrow> Some (visited @ [c], Some e, ctx')
         | Some (Inr (next_step_id, ctx')) \<Rightarrow>
             run_from n ev w tools (visited @ [c]) ctx' next_step_id))"

definition run ::
  "nat \<Rightarrow> evaluator \<Rightarrow> workflow \<Rightarrow> (string \<rightharpoonup> tool) \<Rightarrow> workflow_context option
     \<Rightarrow> (string list \<times> error option \<times> workflow_context) option" where
  "run fuel ev w tools context =
     run_from fuel ev w tools []
       (case context of None \<Rightarrow> empty_context | Some c \<Rightarrow> c)
       (Some (start_step_id w))"

text \<open>
  The same loop with a record of its dispatches: \<open>executed\<close> gains the pair of the
  current step id and of the id of the step found under it (\<^verbatim>\<open>step.id\<close>) each time
  a handler is called, and nowhere else. The code keeps no such list; it is there to say
  which steps a run has executed.
\<close>

fun run_from_traced ::
  "nat \<Rightarrow> evaluator \<Rightarrow> workflow \<Rightarrow> (string \<rightharpoonup> tool) \<Rightarrow> string list \<Rightarrow> (string \<times> string) list
     \<Rightarrow> workflow_context \<Rightarrow> string option
     \<Rightarrow> (string list \<times> (string \<times> string) list \<times> error option \<times> workflow_context) option" where
  "run_from_traced n ev w tools visited executed ctx None = Some (visited, executed, None, ctx)"
| "run_from_traced 0 ev w tools visited executed ctx (Some c) =
     (if c = [] then Some (visited, executed, None, ctx) else None)"
| "run_from_traced (Suc n) ev w tools visited executed ctx (Some c) =
     (if c = [] then Some (visited, executed, None, ctx)
      else if c \<in> set visited then Some (visited, executed, Some (cycle_error w c), ctx)
      else
        (case get_step w c of
           Inl e \<Rightarrow> Some (visited @ [c], executed, Some e, ctx)
         | Inr step \<Rightarrow>
             (case dispatch_step n ev w step tools (ctx\<lparr>last_step_id := Some (step_id step)\<rparr>) of
                None \<Rightarrow> None
              | Some (Inl (e, ctx')) \<Rightarrow>
                  Some (visited @ [c], executed @ [(c, step_id step)], Some e, ctx')
              | Some (Inr (next_step_id, ctx')) \<Rightarrow>
                  run_from_traced n ev w tools (visited @ [c]) (executed @ [(c, step_id step)])
                    ctx' next_step_id)))"

section \<open>The context of an outcome\<close>

text \<open>The context a handler or a body leaves behind, whether it returned or raised.\<close>

definition outcome_ctx :: "'a outcome \<Rightarrow> workflow_context" where
  "outcome_ctx r = (case r of Inl (e, c) \<Rightarrow> c | Inr (x, c) \<Rightarrow> c)"

definition result_ctx :: "(error \<times> workflow_context) + workflow_context \<Rightarrow> workflow_context" where
  "result_ctx r = (case r of Inl (e, c) \<Rightarrow> c | Inr c \<Rightarrow> c)"

section \<open>Example steps, tools and workflows\<close>

text \<open>\<^verbatim>\<open>WorkflowStep(id=i, step_type=t, name=i)\<close> with every other field at its default.\<close>

definition base_step :: "string \<Rightarrow> StepType \<Rightarrow> workflow_step" where
  "base_step i t =
     \<lparr>step_id = i, step_type = t, step_name = i, step_description = None,
      tool_name = None, tool_params = [], condition = None, condition_expression = None,
      on_true = None, on_false = None, parallel_steps = None, loop_steps = None,
      loop_condition = None, loop_expression = None, max_iterations = 10,
      output_key = None, on_error = None, continue_on_error = False\<rparr>"

text \<open>An evaluator that agrees with Python on the three expressions used below:
  \<^verbatim>\<open>True\<close>, \<^verbatim>\<open>False\<close> and the malformed \<^verbatim>\<open>1 +\<close>.\<close>

definition example_eval :: evaluator where
  "example_eval expr context =
     (if expr = ''True'' then Inr (VBool True)
      else if expr = ''False'' then Inr (VBool False)
      else Inl (SyntaxError ''invalid syntax''))"

text \<open>Predicates as injected functions: one that raises (as a function that reads the
  missing key \<^verbatim>\<open>sum_result\<close> does) and one that is always true.\<close>

definition raising_predicate :: predicate where
  "raising_predicate context = Inl (CallableException ''sum_result'')"

definition always_true :: predicate where
  "always_true context = Inr (VBool True)"

text \<open>CONDITION and LOOP steps.\<close>

definition raising_condition_step :: workflow_step where
  "raising_condition_step = (base_step ''check'' CONDITION)
     \<lparr>condition := Some raising_predicate, on_true := Some [''next'']\<rparr>"

definition malformed_condition_step :: workflow_step where
  "malformed_condition_step = (base_step ''check'' CONDITION)
     \<lparr>condition_expression := Some ''1 +'', on_true := Some [''next'']\<rparr>"

definition plain_condition_step :: workflow_step where
  "plain_condition_step = (base_step ''check'' CONDITION)\<lparr>on_true := Some [''next'']\<rparr>"

definition bare_condition_step :: workflow_step where
  "bare_condition_step = base_step ''check'' CONDITION"

definition two_way_condition_step :: workflow_step where
  "two_way_condition_step = (base_step ''fork'' CONDITION)
     \<lparr>condition_expression := Some ''True'', on_true := Some [''a'', ''b'']\<rparr>"

definition false_condition_step :: workflow_step where
  "false_condition_step = (base_step ''gate'' CONDITION)
     \<lparr>condition_expression := Some ''False'', on_true := Some [''a''], on_false := Some [''b'']\<rparr>"

definition plain_loop_step :: workflow_step where
  "plain_loop_step = (base_step ''loop'' LOOP)\<lparr>loop_steps := Some [''inc'']\<rparr>"

text \<open>Tools: one whose \<^verbatim>\<open>execute\<close> raises, one whose \<^verbatim>\<open>validate\<close> returns
  false, and one that returns its parameter \<^verbatim>\<open>prev\<close> plus one (1 when there is none).\<close>

definition failing_tool :: tool where
  "failing_tool = \<lparr>name = ''boom'', validate = (\<lambda>p. Inr True), execute = (\<lambda>p. Inl ''boom failed'')\<rparr>"

definition rejecting_tool :: tool where
  "rejecting_tool = \<lparr>name = ''strict'', validate = (\<lambda>p. Inr False), execute = (\<lambda>p. Inr VNone)\<rparr>"

definition counter_tool :: tool where
  "counter_tool =
     \<lparr>name = ''inc'', validate = (\<lambda>p. Inr True),
      execute = (\<lambda>p. case dict_get p ''prev'' VNone of VInt n \<Rightarrow> Inr (VInt (n + 1)) | _ \<Rightarrow> Inr (VInt 1))\<rparr>"

definition boom_tools :: "string \<rightharpoonup> tool" where
  "boom_tools = [''boom'' \<mapsto> failing_tool, ''strict'' \<mapsto> rejecting_tool]"

definition inc_tools :: "string \<rightharpoonup> tool" where
  "inc_tools = [''inc'' \<mapsto> counter_tool]"

text \<open>TOOL steps: a call of a tool that is not registered, three calls of failing tools
  with the three error wirings, and a step that counts its own executions into
  \<^verbatim>\<open>context.data["counter"]\<close>.\<close>

definition missing_tool_step :: workflow_step where
  "missing_tool_step = (base_step ''call'' TOOL)
     \<lparr>tool_name := Some ''absent'', on_error := Some ''handler'', continue_on_error := True\<rparr>"

definition fatal_tool_step :: workflow_step where
  "fatal_tool_step = (base_step ''call'' TOOL)\<lparr>tool_name := Some ''boom''\<rparr>"

definition routed_tool_step :: workflow_step where
  "routed_tool_step = (base_step ''call'' TOOL)\<lparr>tool_name := Some ''boom'', on_error := Some ''handler''\<rparr>"

definition swallowing_tool_step :: workflow_step where
  "swallowing_tool_step = (base_step ''call'' TOOL)\<lparr>tool_name := Some ''strict'', continue_on_error := True\<rparr>"

definition inc_step :: workflow_step where
  "inc_step = (base_step ''inc'' TOOL)
     \<lparr>tool_name := Some ''inc'', tool_params := [(''prev'', VStr ''${inc.result}'')],
      output_key := Some ''counter''\<rparr>"

text \<open>Workflows: a single step; a LOOP of three iterations over the counting step; a
  PARALLEL group of the counting step; a PARALLEL group of a CONDITION step whose branch
  is the counting step; two CONDITION steps that point at each other.\<close>

definition single_step_workflow :: "workflow_step \<Rightarrow> workflow" where
  "single_step_workflow s =
     \<lparr>wf_id = ''w'', wf_name = ''w'', steps = [step_id s \<mapsto> s], start_step_id = step_id s\<rparr>"

definition loop3_step :: workflow_step where
  "loop3_step = (base_step ''loop'' LOOP)
     \<lparr>loop_steps := Some [''inc''], loop_condition := Some always_true, max_iterations := 3\<rparr>"

definition loop3_workflow :: workflow where
  "loop3_workflow =
     \<lparr>wf_id = ''count'', wf_name = ''count'',
      steps = [''loop'' \<mapsto> loop3_step, ''inc'' \<mapsto> inc_step], start_step_id = ''loop''\<rparr>"

definition group_step :: workflow_step where
  "group_step = (base_step ''group'' PARALLEL)\<lparr>parallel_steps := Some [''inc'']\<rparr>"

definition group_workflow :: workflow where
  "group_workflow =
     \<lparr>wf_id = ''fan'', wf_name = ''fan'',
      steps = [''group'' \<mapsto> group_step, ''inc'' \<mapsto> inc_step], start_step_id = ''group''\<rparr>"




definition cycle_a :: workflow_step where
  "cycle_a = (base_step ''a'' CONDITION)\<lparr>on_true := Some [''b'']\<rparr>"

definition cycle_b :: workflow_step where
  "cycle_b = (base_step ''b'' CONDITION)\<lparr>on_true := Some [''a'']\<rparr>"

definition cyclic_workflow :: workflow where
  "cyclic_workflow =
     \<lparr>wf_id = ''round'', wf_name = ''round'',
      steps = [''a'' \<mapsto> cycle_a, ''b'' \<mapsto> cycle_b], start_step_id = ''a''\<rparr>"

lemmas example_defs = base_step_def example_eval_def raising_predicate_def always_true_def
  raising_condition_step_def malformed_condition_step_def plain_condition_step_def
  bare_condition_step_def plain_loop_step_def two_way_condition_step_def missing_tool_step_def
  single_step_workflow_def empty_context_def

lemmas tool_example_defs = failing_tool_def rejecting_tool_def fatal_tool_step_def routed_tool_step_def
  swallowing_tool_step_def boom_tools_def inc_tools_def counter_tool_def inc_step_def base_step_def
  empty_context_def

lemmas tool_eval_defs = run_tool_step_def resolve_params_of_def step_env_def is_template_def
  template_path_def resolve_path_def dict_get_def call_tool_def record_result_def quoted_def

lemmas loop_example_defs = loop3_workflow_def loop3_step_def group_workflow_def group_step_def
  always_true_def example_eval_def

section \<open>Basic facts\<close>

lemma step_env_last_step_id [simp]: "step_env (ctx\<lparr>last_step_id := x\<rparr>) = step_env ctx"
  by (simp add: step_env_def)

lemma outcome_ctx_simps [simp]:
  "outcome_ctx (Inl (e, c)) = c" "outcome_ctx (Inr (x, c)) = c"
  by (simp_all add: outcome_ctx_def)

lemma result_ctx_simps [simp]:
  "result_ctx (Inl (e, c)) = c" "result_ctx (Inr c) = c"
  by (simp_all add: result_ctx_def)

lemma get_step_Inr: "get_step w c = Inr s \<longleftrightarrow> steps w c = Some s"
  by (simp add: get_step_def split: option.splits)

lemma get_step_ran: "get_step w c = Inr s \<Longrightarrow> s \<in> ran (steps w)"
  by (auto simp: get_step_Inr ran_def)


lemma run_condition_step_ctx: "outcome_ctx (run_condition_step ev step ctx) = ctx"
  by (simp add: run_condition_step_def Let_def split: sum.splits)

lemma run_from_step:
  "c \<noteq> [] \<Longrightarrow> c \<notin> set visited \<Longrightarrow> steps w c = Some step \<Longrightarrow>
   run_from (Suc n) ev w tools visited ctx (Some c) =
     (case dispatch_step n ev w step tools (ctx\<lparr>last_step_id := Some (step_id step)\<rparr>) of
        None \<Rightarrow> None
      | Some (Inl (e, ctx')) \<Rightarrow> Some (visited @ [c], Some e, ctx')
      | Some (Inr (next_step_id, ctx')) \<Rightarrow> run_from n ev w tools (visited @ [c]) ctx' next_step_id)"
  by (simp add: run_current_def get_step_def)

lemma run_from_tool_step:
  assumes "c \<noteq> []" and "c \<notin> set visited" and "steps w c = Some step" and "step_type step = TOOL"
  shows "run_from (Suc n) ev w tools visited ctx (Some c) =
     (case run_tool_step step tools (ctx\<lparr>last_step_id := Some (step_id step)\<rparr>) of
        Inl (e, ctx') \<Rightarrow> Some (visited @ [c], Some e, ctx')
      | Inr (next_step_id, ctx') \<Rightarrow> run_from n ev w tools (visited @ [c]) ctx' next_step_id)"
  using assms by (simp add: run_from_step dispatch_step_def del: run_from.simps)

lemma call_tool_failure_cases:
  "call_tool t step params = Inl exc \<longleftrightarrow>
     (\<exists>m. validate t params = Inl m \<and> exc = ToolException m) \<or>
     (validate t params = Inr False \<and>
      exc = ToolExecutionError (name t)
              (''Validation failed for tool '' @ quoted (name t) @ '' in step '' @ quoted (step_id step))) \<or>
     (\<exists>m. validate t params = Inr True \<and> execute t params = Inl m \<and> exc = ToolException m)"
  by (cases "validate t params"; cases "execute t params") (auto simp: call_tool_def)

lemma run_tool_step_called:
  assumes "tool_name step = Some tn" and "tn \<noteq> []" and "tools tn = Some t"
    and "resolve_params_of (tool_params step) (step_env ctx) = Inr params"
  shows "run_tool_step step tools ctx =
     (case call_tool t step params of
        Inr result \<Rightarrow>
          Inr (None, record_result (step_id step) result VNone
                 (if truthy_opt (output_key step)
                  then ctx\<lparr>last_result := result, data := dict_set (the (output_key step)) result (data ctx)\<rparr>
                  else ctx\<lparr>last_result := result\<rparr>))
      | Inl exc \<Rightarrow>
          if truthy_opt (on_error step) then
            Inr (on_error step,
                 record_result (step_id step) VNone (VStr (str_of_error exc)) (ctx\<lparr>last_result := VNone\<rparr>))
          else if \<not> continue_on_error step then Inl (exc, ctx\<lparr>last_result := VNone\<rparr>)
          else Inr (None,
                 record_result (step_id step) VNone (VStr (str_of_error exc)) (ctx\<lparr>last_result := VNone\<rparr>)))"
  using assms by (simp add: run_tool_step_def Let_def split: sum.splits)

lemma run_tool_step_last_step_id:
  "last_step_id (outcome_ctx (run_tool_step step tools ctx)) = last_step_id ctx"
  by (simp add: run_tool_step_def record_result_def Let_def split: option.splits sum.splits)


section \<open>What a body can change\<close>

text \<open>
  The PARALLEL and LOOP bodies touch the context only through the TOOL handler, on steps
  of the workflow. So a relation between contexts that is reflexive and transitive and
  holds across every TOOL step of the workflow holds across a nested chain, a child, a
  list of children, a whole loop and a dispatch.
\<close>

lemma nested_chain_frame:
  assumes refl: "\<And>c. R c c"
    and trans: "\<And>a b c. R a b \<Longrightarrow> R b c \<Longrightarrow> R a c"
    and tool: "\<And>s c. step_type s = TOOL \<Longrightarrow> s \<in> ran (steps w) \<Longrightarrow>
                 R c (outcome_ctx (run_tool_step s tools c))"
  shows "run_nested_chain n w tools ctx cur = Some r \<Longrightarrow> R ctx (result_ctx r)"
proof (induction n arbitrary: ctx cur r)
  case 0
  then have "r = Inr ctx" by (cases cur) (auto split: if_splits)
  then show ?case by (simp add: refl)
next
  case (Suc n)
  show ?case
  proof (cases cur)
    case None
    with Suc.prems have "r = Inr ctx" by simp
    then show ?thesis by (simp add: refl)
  next
    case (Some c)
    show ?thesis
    proof (cases "c = []")
      case True
      with Some Suc.prems have "r = Inr ctx" by simp
      then show ?thesis by (simp add: refl)
    next
      case False
      show ?thesis
      proof (cases "get_step w c")
        case (Inl e)
        with Some False Suc.prems have "r = Inl (e, ctx)" by simp
        then show ?thesis by (simp add: refl)
      next
        case (Inr s)
        show ?thesis
        proof (cases "step_type s = TOOL")
          case nt: False
          with Some False Inr Suc.prems have "r = Inr ctx" by simp
          then show ?thesis by (simp add: refl)
        next
          case t: True
          have step: "R ctx (outcome_ctx (run_tool_step s tools ctx))"
            using t Inr by (intro tool get_step_ran)
          show ?thesis
          proof (cases "run_tool_step s tools ctx")
            case l: (Inl ec)
            with Some False Inr t Suc.prems have "r = Inl ec" by simp
            with step l show ?thesis by (cases ec) simp
          next
            case rr: (Inr p)
            obtain nxt ctx' where p: "p = (nxt, ctx')" by (cases p)
            with Some False Inr t rr Suc.prems
            have "run_nested_chain n w tools ctx' nxt = Some r" by simp
            then have "R ctx' (result_ctx r)" by (rule Suc.IH)
            moreover from step rr p have "R ctx ctx'" by simp
            ultimately show ?thesis by (rule trans [rotated])
          qed
        qed
      qed
    qed
  qed
qed

lemma run_child_frame:
  assumes refl: "\<And>c. R c c"
    and trans: "\<And>a b c. R a b \<Longrightarrow> R b c \<Longrightarrow> R a c"
    and tool: "\<And>s c. step_type s = TOOL \<Longrightarrow> s \<in> ran (steps w) \<Longrightarrow>
                 R c (outcome_ctx (run_tool_step s tools c))"
    and run: "run_child fuel ev w tools ctx child = Some r"
  shows "R ctx (result_ctx r)"
proof (cases "get_step w child")
  case (Inl e)
  with run have "r = Inl (e, ctx)" by (simp add: run_child_def)
  then show ?thesis by (simp add: refl)
next
  case (Inr s)
  show ?thesis
  proof (cases "step_type s")
    case TOOL
    then have step: "R ctx (outcome_ctx (run_tool_step s tools ctx))"
      using Inr by (intro tool get_step_ran)
    show ?thesis
    proof (cases "run_tool_step s tools ctx")
      case l: (Inl ec)
      with run Inr TOOL have "r = Inl ec" by (simp add: run_child_def)
      with step l show ?thesis by (cases ec) simp
    next
      case rr: (Inr p)
      obtain nxt ctx' where p: "p = (nxt, ctx')" by (cases p)
      with run Inr TOOL rr have "r = Inr ctx'" by (simp add: run_child_def)
      with step rr p show ?thesis by simp
    qed
  next
    case CONDITION
    have same: "outcome_ctx (run_condition_step ev s ctx) = ctx" by (rule run_condition_step_ctx)
    show ?thesis
    proof (cases "run_condition_step ev s ctx")
      case l: (Inl ec)
      with run Inr CONDITION have "r = Inl ec" by (simp add: run_child_def)
      with same l show ?thesis by (cases ec) (simp add: refl)
    next
      case rr: (Inr p)
      obtain nxt ctx' where p: "p = (nxt, ctx')" by (cases p)
      with same rr have c: "ctx' = ctx" by simp
      show ?thesis
      proof (cases "truthy_opt nxt")
        case True
        with run Inr CONDITION rr p c have chain: "run_nested_chain fuel w tools ctx nxt = Some r"
          by (simp add: run_child_def)
        show ?thesis
          using refl trans tool chain by (rule nested_chain_frame [where R = R])
      next
        case False
        with run Inr CONDITION rr p c have "r = Inr ctx" by (simp add: run_child_def)
        then show ?thesis by (simp add: refl)
      qed
    qed
  next
    case PARALLEL
    with run Inr have "r = Inr ctx" by (simp add: run_child_def)
    then show ?thesis by (simp add: refl)
  next
    case LOOP
    with run Inr have "r = Inr ctx" by (simp add: run_child_def)
    then show ?thesis by (simp add: refl)
  qed
qed

lemma run_children_frame:
  assumes refl: "\<And>c. R c c"
    and trans: "\<And>a b c. R a b \<Longrightarrow> R b c \<Longrightarrow> R a c"
    and tool: "\<And>s c. step_type s = TOOL \<Longrightarrow> s \<in> ran (steps w) \<Longrightarrow>
                 R c (outcome_ctx (run_tool_step s tools c))"
  shows "run_children fuel ev w tools ctx children = Some r \<Longrightarrow> R ctx (result_ctx r)"
proof (induction children arbitrary: ctx r)
  case Nil
  then have "r = Inr ctx" by simp
  then show ?case by (simp add: refl)
next
  case (Cons child rest)
  from Cons.prems obtain r1 where r1: "run_child fuel ev w tools ctx child = Some r1"
    by (cases "run_child fuel ev w tools ctx child") auto
  have step: "R ctx (result_ctx r1)"
    using refl trans tool r1 by (rule run_child_frame [where R = R])
  show ?case
  proof (cases r1)
    case (Inl ec)
    with Cons.prems r1 have "r = r1" by simp
    with step show ?thesis by simp
  next
    case (Inr ctx')
    with Cons.prems r1 have "run_children fuel ev w tools ctx' rest = Some r" by simp
    then have "R ctx' (result_ctx r)" by (rule Cons.IH)
    moreover from step Inr have "R ctx ctx'" by simp
    ultimately show ?thesis by (rule trans [rotated])
  qed
qed

lemma loop_while_frame:
  assumes refl: "\<And>c. R c c"
    and trans: "\<And>a b c. R a b \<Longrightarrow> R b c \<Longrightarrow> R a c"
    and tool: "\<And>s c. step_type s = TOOL \<Longrightarrow> s \<in> ran (steps w) \<Longrightarrow>
                 R c (outcome_ctx (run_tool_step s tools c))"
  shows "loop_while fuel ev w step tools i ctx = Some (k, r) \<Longrightarrow> R ctx (result_ctx r)"
  using tool
proof (induction fuel ev w step tools i ctx arbitrary: k r rule: loop_while.induct)
  case (1 fuel ev w step tools iterations ctx)
  note run = "1.prems"(1) and tool' = "1.prems"(2)
  note simps = loop_while.simps [of fuel ev w step tools iterations ctx]
  show ?case
  proof (cases "iterations < max_iterations step")
    case False
    with run have "r = Inr ctx" by (simp add: simps)
    then show ?thesis by (simp add: refl)
  next
    case lt: True
    show ?thesis
    proof (cases "evaluate_loop_condition ev step (step_env ctx)")
      case (Inl e)
      with lt run have "r = Inl (e, ctx)" by (simp add: simps)
      then show ?thesis by (simp add: refl)
    next
      case (Inr v)
      show ?thesis
      proof (cases "truthy v")
        case False
        with lt Inr run have "r = Inr ctx" by (simp add: simps)
        then show ?thesis by (simp add: refl)
      next
        case tv: True
        from lt Inr tv run obtain r1 where
          r1: "run_children fuel ev w tools ctx (the (loop_steps step)) = Some r1"
          by (cases "run_children fuel ev w tools ctx (the (loop_steps step))") (auto simp: simps)
        have step: "R ctx (result_ctx r1)"
          using refl trans tool' r1 by (rule run_children_frame [where R = R])
        show ?thesis
        proof (cases r1)
          case l: (Inl ec)
          with lt Inr tv r1 run have "r = r1" by (simp add: simps)
          with step show ?thesis by simp
        next
          case rr: (Inr ctx')
          with lt Inr tv r1 run
          have "loop_while fuel ev w step tools (iterations + 1) ctx' = Some (k, r)"
            by (simp add: simps)
          with lt Inr tv r1 rr tool' have "R ctx' (result_ctx r)"
            by (intro "1.IH") auto
          moreover from step rr have "R ctx ctx'" by simp
          ultimately show ?thesis by (rule trans [rotated])
        qed
      qed
    qed
  qed
qed

lemma dispatch_step_frame:
  assumes refl: "\<And>c. R c c"
    and trans: "\<And>a b c. R a b \<Longrightarrow> R b c \<Longrightarrow> R a c"
    and tool: "\<And>s c. step_type s = TOOL \<Longrightarrow> s \<in> ran (steps w) \<Longrightarrow>
                 R c (outcome_ctx (run_tool_step s tools c))"
    and known: "step \<in> ran (steps w)"
    and run: "dispatch_step fuel ev w step tools ctx = Some r"
  shows "R ctx (outcome_ctx r)"
proof (cases "step_type step")
  case TOOL
  with run have "r = run_tool_step step tools ctx" by (simp add: dispatch_step_def)
  with TOOL known show ?thesis by (simp add: tool)
next
  case CONDITION
  with run have "r = run_condition_step ev step ctx" by (simp add: dispatch_step_def)
  then show ?thesis by (simp add: run_condition_step_ctx refl)
next
  case PARALLEL
  with run have p: "run_parallel_step fuel ev w step tools ctx = Some r"
    by (simp add: dispatch_step_def)
  show ?thesis
  proof (cases "truthy_opt (parallel_steps step)")
    case False
    with p have "r = Inr (None, ctx)" by (simp add: run_parallel_step_def)
    then show ?thesis by (simp add: refl)
  next
    case True
    with p obtain r1 where r1: "run_children fuel ev w tools ctx (the (parallel_steps step)) = Some r1"
      by (cases "run_children fuel ev w tools ctx (the (parallel_steps step))")
         (auto simp: run_parallel_step_def)
    have step: "R ctx (result_ctx r1)"
      using refl trans tool r1 by (rule run_children_frame [where R = R])
    from p True r1 have "outcome_ctx r = result_ctx r1"
      by (cases r1) (auto simp: run_parallel_step_def)
    with step show ?thesis by simp
  qed
next
  case LOOP
  with run have p: "run_loop_step fuel ev w step tools ctx = Some r"
    by (simp add: dispatch_step_def)
  show ?thesis
  proof (cases "truthy_opt (loop_steps step)")
    case False
    with p have "r = Inr (None, ctx)" by (simp add: run_loop_step_def)
    then show ?thesis by (simp add: refl)
  next
    case True
    with p obtain k r1 where r1: "loop_while fuel ev w step tools 0 ctx = Some (k, r1)"
      by (cases "loop_while fuel ev w step tools 0 ctx") (auto simp: run_loop_step_def)
    have step: "R ctx (result_ctx r1)"
      using refl trans tool r1 by (rule loop_while_frame [where R = R])
    from p True r1 have "outcome_ctx r = result_ctx r1"
      by (cases r1) (auto simp: run_loop_step_def)
    with step show ?thesis by simp
  qed
qed

section \<open>The examples, evaluated\<close>

lemma two_way_eval:
  "evaluate_condition example_eval two_way_condition_step (step_env empty_context) = Inr (VBool True)"
  by (simp add: evaluate_condition_def two_way_condition_step_def base_step_def example_eval_def)


lemma group_dispatch:
  "dispatch_step 0 example_eval group_workflow group_step inc_tools ctx =
     Some (case run_tool_step inc_step inc_tools ctx of
             Inl ec \<Rightarrow> Inl ec | Inr (nxt, ctx') \<Rightarrow> Inr (None, ctx'))"
  by (simp add: loop_example_defs dispatch_step_def run_parallel_step_def run_child_def get_step_def
        inc_step_def base_step_def split: sum.splits)

lemma loop3_result:
  "loop_while 0 example_eval loop3_workflow loop3_step inc_tools 0 empty_context =
     Some (3, Inr \<lparr>data = [(''counter'', VInt 3)],
                   step_results = [(''inc'', [(''result'', VInt 3), (''error'', VNone)])],
                   last_step_id = None, last_result = VInt 3\<rparr>)"
  by (simp add: loop_example_defs tool_example_defs tool_eval_defs run_child_def get_step_def
        evaluate_loop_condition_def)

section \<open>Failure of a TOOL step\<close>

text \<open>
  C1, as the code has it: when the tool of a TOOL step is found and its validation fails
  or its validation or execution raises, \<open>last_result\<close> is cleared; then, if
  \<open>on_error\<close> is set, the entry \<^verbatim>\<open>{result: None, error: message}\<close> is stored under
  the step's id and the next step is exactly \<open>on_error\<close>; else if
  \<open>continue_on_error\<close> is true, the same entry is stored and there is no next step; else
  the exception is raised again with no entry stored, and at top level it leaves
  \<^verbatim>\<open>Workflow.run\<close>.
\<close>

theorem tool_failure_routing:
  assumes "tool_name step = Some tn" and "tn \<noteq> []" and "tools tn = Some t"
    and "resolve_params_of (tool_params step) (step_env ctx) = Inr params"
    and "call_tool t step params = Inl exc"
    and "failed = ctx\<lparr>last_result := VNone\<rparr>"
    and "recorded = failed\<lparr>step_results :=
           dict_set (step_id step) [(''result'', VNone), (''error'', VStr (str_of_error exc))] (step_results ctx)\<rparr>"
  shows "(\<forall>h. on_error step = Some h \<and> h \<noteq> [] \<longrightarrow>
            run_tool_step step tools ctx = Inr (Some h, recorded)) \<and>
         (\<not> truthy_opt (on_error step) \<and> continue_on_error step \<longrightarrow>
            run_tool_step step tools ctx = Inr (None, recorded)) \<and>
         (\<not> truthy_opt (on_error step) \<and> \<not> continue_on_error step \<longrightarrow>
            run_tool_step step tools ctx = Inl (exc, failed) \<and>
            step_results failed = step_results ctx \<and>
            (c \<noteq> [] \<and> c \<notin> set visited \<and> steps w c = Some step \<and> step_type step = TOOL \<longrightarrow>
               run_from (Suc n) ev w tools visited ctx (Some c) =
                 Some (visited @ [c], Some exc, failed\<lparr>last_step_id := Some (step_id step)\<rparr>)))"
proof -
  have called: "\<And>c p. resolve_params_of (tool_params step) (step_env c) = Inr p \<Longrightarrow>
      run_tool_step step tools c =
       (case call_tool t step p of
          Inr result \<Rightarrow>
            Inr (None, record_result (step_id step) result VNone
                   (if truthy_opt (output_key step)
                    then c\<lparr>last_result := result, data := dict_set (the (output_key step)) result (data c)\<rparr>
                    else c\<lparr>last_result := result\<rparr>))
        | Inl exc \<Rightarrow>
            if truthy_opt (on_error step) then
              Inr (on_error step,
                   record_result (step_id step) VNone (VStr (str_of_error exc)) (c\<lparr>last_result := VNone\<rparr>))
            else if \<not> continue_on_error step then Inl (exc, c\<lparr>last_result := VNone\<rparr>)
            else Inr (None,
                   record_result (step_id step) VNone (VStr (str_of_error exc)) (c\<lparr>last_result := VNone\<rparr>)))"
    using assms(1-3) by (rule run_tool_step_called)
  have r: "run_tool_step step tools ctx =
      (if truthy_opt (on_error step) then Inr (on_error step, recorded)
       else if \<not> continue_on_error step then Inl (exc, failed)
       else Inr (None, recorded))"
    using called [OF assms(4)] assms(5-7) by (simp add: record_result_def)
  let ?ctx = "ctx\<lparr>last_step_id := Some (step_id step)\<rparr>"
  have "resolve_params_of (tool_params step) (step_env ?ctx) = Inr params"
    using assms(4) by simp
  from called [OF this] assms(5-7)
  have r': "\<not> truthy_opt (on_error step) \<Longrightarrow> \<not> continue_on_error step \<Longrightarrow>
      run_tool_step step tools ?ctx = Inl (exc, failed\<lparr>last_step_id := Some (step_id step)\<rparr>)"
    by simp
  show ?thesis
  proof (intro conjI impI allI)
    fix h assume "on_error step = Some h \<and> h \<noteq> []"
    with r show "run_tool_step step tools ctx = Inr (Some h, recorded)" by simp
  next
    assume "\<not> truthy_opt (on_error step) \<and> continue_on_error step"
    with r show "run_tool_step step tools ctx = Inr (None, recorded)" by simp
  next
    assume "\<not> truthy_opt (on_error step) \<and> \<not> continue_on_error step"
    with r show "run_tool_step step tools ctx = Inl (exc, failed)" by simp
  next
    show "step_results failed = step_results ctx" using assms(6) by simp
  next
    assume a: "\<not> truthy_opt (on_error step) \<and> \<not> continue_on_error step"
      and b: "c \<noteq> [] \<and> c \<notin> set visited \<and> steps w c = Some step \<and> step_type step = TOOL"
    from b have "run_from (Suc n) ev w tools visited ctx (Some c) =
       (case run_tool_step step tools ?ctx of
          Inl (e, ctx') \<Rightarrow> Some (visited @ [c], Some e, ctx')
        | Inr (next_step_id, ctx') \<Rightarrow> run_from n ev w tools (visited @ [c]) ctx' next_step_id)"
      by (intro run_from_tool_step) simp_all
    with r' a show "run_from (Suc n) ev w tools visited ctx (Some c) =
                 Some (visited @ [c], Some exc, failed\<lparr>last_step_id := Some (step_id step)\<rparr>)"
      by simp
  qed
qed

theorem tool_failure_routing_witness:
  "tool_name routed_tool_step = Some ''boom'' \<and> boom_tools ''boom'' = Some failing_tool \<and>
   resolve_params_of (tool_params routed_tool_step) (step_env empty_context) = Inr [] \<and>
   call_tool failing_tool routed_tool_step [] = Inl (ToolException ''boom failed'') \<and>
   run_tool_step routed_tool_step boom_tools empty_context =
     Inr (Some ''handler'',
          \<lparr>data = [],
           step_results = [(''call'', [(''result'', VNone), (''error'', VStr ''boom failed'')])],
           last_step_id = None, last_result = VNone\<rparr>) \<and>
   tool_name swallowing_tool_step = Some ''strict'' \<and> boom_tools ''strict'' = Some rejecting_tool \<and>
   validate rejecting_tool [] = Inr False \<and>
   run_tool_step swallowing_tool_step boom_tools empty_context =
     Inr (None,
          \<lparr>data = [],
           step_results =
             [(''call'', [(''result'', VNone),
                (''error'', VStr (str_of_error (ToolExecutionError ''strict''
                   (''Validation failed for tool '' @ quoted ''strict'' @ '' in step '' @ quoted ''call''))))])],
           last_step_id = None, last_result = VNone\<rparr>) \<and>
   tool_name fatal_tool_step = Some ''boom'' \<and>
   run_tool_step fatal_tool_step boom_tools empty_context =
     Inl (ToolException ''boom failed'',
          \<lparr>data = [], step_results = [], last_step_id = None, last_result = VNone\<rparr>)"
proof -
  have b: "boom_tools ''boom'' = Some failing_tool" "boom_tools ''strict'' = Some rejecting_tool"
    "''boom'' \<noteq> []" "''strict'' \<noteq> []"
    by (simp_all add: boom_tools_def)
  have f: "empty_context = empty_context\<lparr>last_result := VNone\<rparr>"
    by (simp add: empty_context_def)
  have n1: "tool_name routed_tool_step = Some ''boom''"
    and p1: "resolve_params_of (tool_params routed_tool_step) (step_env empty_context) = Inr []"
    and c1: "call_tool failing_tool routed_tool_step [] = Inl (ToolException ''boom failed'')"
    by (simp_all add: tool_example_defs tool_eval_defs)
  have n2: "tool_name swallowing_tool_step = Some ''strict''"
    and p2: "resolve_params_of (tool_params swallowing_tool_step) (step_env empty_context) = Inr []"
    and c2: "call_tool rejecting_tool swallowing_tool_step [] =
               Inl (ToolExecutionError ''strict''
                 (''Validation failed for tool '' @ quoted ''strict'' @ '' in step '' @ quoted ''call''))"
    and v2: "validate rejecting_tool [] = Inr False"
    by (simp_all add: tool_example_defs tool_eval_defs)
  have n3: "tool_name fatal_tool_step = Some ''boom''"
    and p3: "resolve_params_of (tool_params fatal_tool_step) (step_env empty_context) = Inr []"
    and c3: "call_tool failing_tool fatal_tool_step [] = Inl (ToolException ''boom failed'')"
    by (simp_all add: tool_example_defs tool_eval_defs)
  have r1: "run_tool_step routed_tool_step boom_tools empty_context =
     Inr (Some ''handler'',
          \<lparr>data = [],
           step_results = [(''call'', [(''result'', VNone), (''error'', VStr ''boom failed'')])],
           last_step_id = None, last_result = VNone\<rparr>)"
    using tool_failure_routing [where step = routed_tool_step and tools = boom_tools
        and ctx = empty_context and failed = empty_context, OF n1 b(3) b(1) p1 c1 f refl]
    by (simp add: routed_tool_step_def base_step_def empty_context_def)
  have r2: "run_tool_step swallowing_tool_step boom_tools empty_context =
     Inr (None,
          \<lparr>data = [],
           step_results =
             [(''call'', [(''result'', VNone),
                (''error'', VStr (str_of_error (ToolExecutionError ''strict''
                   (''Validation failed for tool '' @ quoted ''strict'' @ '' in step '' @ quoted ''call''))))])],
           last_step_id = None, last_result = VNone\<rparr>)"
    using tool_failure_routing [where step = swallowing_tool_step and tools = boom_tools
        and ctx = empty_context and failed = empty_context, OF n2 b(4) b(2) p2 c2 f refl]
    by (simp add: swallowing_tool_step_def base_step_def empty_context_def)
  have r3: "run_tool_step fatal_tool_step boom_tools empty_context =
     Inl (ToolException ''boom failed'',
          \<lparr>data = [], step_results = [], last_step_id = None, last_result = VNone\<rparr>)"
    using tool_failure_routing [where step = fatal_tool_step and tools = boom_tools
        and ctx = empty_context and failed = empty_context, OF n3 b(3) b(1) p3 c3 f refl]
    by (simp add: fatal_tool_step_def base_step_def empty_context_def)
  from n1 b(1) p1 c1 r1 n2 b(2) v2 r2 n3 r3 show ?thesis by blast
qed

text \<open>A failing tool with neither \<open>on_error\<close> nor \<open>continue_on_error\<close>: the run is
  aborted and \<open>step_results\<close> has no entry for the step.\<close>

theorem fatal_tool_failure_records_nothing:
  "run_tool_step fatal_tool_step boom_tools empty_context =
     Inl (ToolException ''boom failed'',
          \<lparr>data = [], step_results = [], last_step_id = None, last_result = VNone\<rparr>) \<and>
   run (Suc 0) example_eval (single_step_workflow fatal_tool_step) boom_tools None =
     Some ([''call''], Some (ToolException ''boom failed''),
           \<lparr>data = [], step_results = [], last_step_id = Some ''call'', last_result = VNone\<rparr>)"
  by (simp add: tool_example_defs tool_eval_defs run_def single_step_workflow_def run_current_def
        get_step_def dispatch_step_def)

section \<open>A tool that is not registered\<close>

text \<open>
  C2, as the code has it: for a TOOL step whose tool name is not in the registry, the
  handler raises the tool-not-found error before its \<^verbatim>\<open>try\<close> block, whatever
  \<open>on_error\<close> and \<open>continue_on_error\<close> say, and leaves the context untouched.
\<close>

theorem tool_not_found_is_fatal:
  assumes "tool_name step = Some tn" and "tn \<noteq> []" and "tools tn = None"
  shows "run_tool_step step tools ctx =
           Inl (ToolExecutionError tn (''Tool '' @ quoted tn @ '' not found for step '' @ quoted (step_id step)), ctx)"
  using assms by (simp add: run_tool_step_def)

theorem tool_not_found_is_fatal_witness:
  "tool_name missing_tool_step = Some ''absent'' \<and> ''absent'' \<noteq> [] \<and>
   (Map.empty :: string \<rightharpoonup> tool) ''absent'' = None \<and>
   run_tool_step missing_tool_step Map.empty empty_context =
     Inl (ToolExecutionError ''absent''
            (''Tool '' @ quoted ''absent'' @ '' not found for step '' @ quoted (step_id missing_tool_step)),
          empty_context)"
proof -
  have h1: "tool_name missing_tool_step = Some ''absent''"
    by (simp add: missing_tool_step_def base_step_def)
  have h2: "''absent'' \<noteq> []" by simp
  have h3: "(Map.empty :: string \<rightharpoonup> tool) ''absent'' = None" by simp
  from tool_not_found_is_fatal [OF h1 h2 h3, of empty_context] h1 show ?thesis by simp
qed

text \<open>A TOOL step with \<open>on_error\<close> and \<open>continue_on_error\<close> both set, whose tool is
  not registered: the run is aborted all the same.\<close>

theorem missing_tool_ignores_error_wiring:
  "on_error missing_tool_step = Some ''handler'' \<and> continue_on_error missing_tool_step \<and>
   run_tool_step missing_tool_step Map.empty empty_context =
     Inl (ToolExecutionError ''absent'' (''Tool '' @ quoted ''absent'' @ '' not found for step '' @ quoted ''call''),
          empty_context) \<and>
   run (Suc 0) example_eval (single_step_workflow missing_tool_step) Map.empty None =
     Some ([''call''],
           Some (ToolExecutionError ''absent'' (''Tool '' @ quoted ''absent'' @ '' not found for step '' @ quoted ''call'')),
           empty_context\<lparr>last_step_id := Some ''call''\<rparr>)"
  by (simp add: example_defs run_tool_step_def run_def run_current_def get_step_def dispatch_step_def)

section \<open>The bound of a LOOP\<close>

lemma loop_while_bounds:
  "loop_while fuel ev w step tools i ctx = Some (k, r) \<Longrightarrow>
   i \<le> k \<and> (i \<le> max_iterations step \<longrightarrow> k \<le> max_iterations step)"
proof (induction fuel ev w step tools i ctx arbitrary: k r rule: loop_while.induct)
  case (1 fuel ev w step tools iterations ctx)
  note run = "1.prems"
  note simps = loop_while.simps [of fuel ev w step tools iterations ctx]
  show ?case
  proof (cases "iterations < max_iterations step")
    case False
    with run have "k = iterations" by (simp add: simps)
    then show ?thesis by simp
  next
    case lt: True
    show ?thesis
    proof (cases "evaluate_loop_condition ev step (step_env ctx)")
      case (Inl e)
      with lt run have "k = iterations" by (simp add: simps)
      then show ?thesis by simp
    next
      case (Inr v)
      show ?thesis
      proof (cases "truthy v")
        case False
        with lt Inr run have "k = iterations" by (simp add: simps)
        then show ?thesis by simp
      next
        case tv: True
        from lt Inr tv run obtain r1 where
          r1: "run_children fuel ev w tools ctx (the (loop_steps step)) = Some r1"
          by (cases "run_children fuel ev w tools ctx (the (loop_steps step))") (auto simp: simps)
        show ?thesis
        proof (cases r1)
          case l: (Inl ec)
          with lt Inr tv r1 run have "k = iterations + 1" by (simp add: simps)
          with lt show ?thesis by simp
        next
          case rr: (Inr ctx')
          with lt Inr tv r1 run
          have "loop_while fuel ev w step tools (iterations + 1) ctx' = Some (k, r)"
            by (simp add: simps)
          with lt Inr tv r1 rr
          have "iterations + 1 \<le> k \<and> (iterations + 1 \<le> max_iterations step \<longrightarrow> k \<le> max_iterations step)"
            by (intro "1.IH") auto
          with lt show ?thesis by simp
        qed
      qed
    qed
  qed
qed

lemma loop_while_always_true:
  assumes always: "\<forall>env. \<exists>v. evaluate_loop_condition ev step env = Inr v \<and> truthy v"
  shows "loop_while fuel ev w step tools i ctx = Some (k, Inr ctx') \<Longrightarrow>
         i \<le> max_iterations step \<Longrightarrow> k = max_iterations step"
  using always
proof (induction fuel ev w step tools i ctx arbitrary: k ctx' rule: loop_while.induct)
  case (1 fuel ev w step tools iterations ctx)
  note run = "1.prems"(1) and le = "1.prems"(2) and always' = "1.prems"(3)
  note simps = loop_while.simps [of fuel ev w step tools iterations ctx]
  show ?case
  proof (cases "iterations < max_iterations step")
    case False
    with run have "k = iterations" by (simp add: simps)
    with False le show ?thesis by simp
  next
    case lt: True
    from always' obtain v where v: "evaluate_loop_condition ev step (step_env ctx) = Inr v" "truthy v"
      by blast
    from lt v run obtain r1 where
      r1: "run_children fuel ev w tools ctx (the (loop_steps step)) = Some r1"
      by (cases "run_children fuel ev w tools ctx (the (loop_steps step))") (auto simp: simps)
    show ?thesis
    proof (cases r1)
      case (Inl ec)
      with lt v r1 run show ?thesis by (simp add: simps)
    next
      case (Inr c1)
      with lt v r1 run
      have "loop_while fuel ev w step tools (iterations + 1) c1 = Some (k, Inr ctx')"
        by (simp add: simps)
      with lt v r1 Inr always' show ?thesis
        by (intro "1.IH") auto
    qed
  qed
qed

lemma run_children_total:
  "\<forall>c \<in> set children. \<forall>s. steps w c = Some s \<longrightarrow> step_type s \<noteq> CONDITION \<Longrightarrow>
   \<exists>r. run_children fuel ev w tools ctx children = Some r"
proof (induction children arbitrary: ctx)
  case Nil
  then show ?case by simp
next
  case (Cons child rest)
  then have nc: "\<forall>s. steps w child = Some s \<longrightarrow> step_type s \<noteq> CONDITION" by simp
  have "\<exists>r1. run_child fuel ev w tools ctx child = Some r1"
  proof (cases "steps w child")
    case None
    then show ?thesis by (simp add: run_child_def get_step_def)
  next
    case (Some s)
    with nc have "step_type s \<noteq> CONDITION" by simp
    with Some show ?thesis
      by (cases "run_tool_step s tools ctx") (auto simp: run_child_def get_step_def)
  qed
  then obtain r1 where r1: "run_child fuel ev w tools ctx child = Some r1" by blast
  show ?case
  proof (cases r1)
    case (Inl ec)
    with r1 show ?thesis by simp
  next
    case (Inr c1)
    from Cons.prems have "\<forall>c \<in> set rest. \<forall>s. steps w c = Some s \<longrightarrow> step_type s \<noteq> CONDITION"
      by simp
    from Cons.IH [OF this, of c1] r1 Inr show ?thesis by simp
  qed
qed

lemma loop_while_total:
  assumes "\<forall>c \<in> set (the (loop_steps step)). \<forall>s. steps w c = Some s \<longrightarrow> step_type s \<noteq> CONDITION"
  shows "\<exists>k r. loop_while fuel ev w step tools i ctx = Some (k, r)"
  using assms
proof (induction fuel ev w step tools i ctx rule: loop_while.induct)
  case (1 fuel ev w step tools iterations ctx)
  note simps = loop_while.simps [of fuel ev w step tools iterations ctx]
  show ?case
  proof (cases "iterations < max_iterations step")
    case False
    then show ?thesis by (simp add: simps)
  next
    case lt: True
    show ?thesis
    proof (cases "evaluate_loop_condition ev step (step_env ctx)")
      case (Inl e)
      with lt show ?thesis by (simp add: simps)
    next
      case (Inr v)
      show ?thesis
      proof (cases "truthy v")
        case False
        with lt Inr show ?thesis by (simp add: simps)
      next
        case tv: True
        from run_children_total [OF "1.prems", of fuel ev tools ctx] obtain r1 where
          r1: "run_children fuel ev w tools ctx (the (loop_steps step)) = Some r1" by blast
        show ?thesis
        proof (cases r1)
          case l: (Inl ec)
          with lt Inr tv r1 show ?thesis by (simp add: simps)
        next
          case rr: (Inr c1)
          with lt Inr tv r1 "1.prems"
          have "\<exists>k r. loop_while fuel ev w step tools (iterations + 1) c1 = Some (k, r)"
            by (intro "1.IH") auto
          with lt Inr tv r1 rr show ?thesis by (simp add: simps)
        qed
      qed
    qed
  qed
qed

text \<open>
  C3: for a LOOP step with \<open>max_iterations = N \<ge> 0\<close> whose continuation predicate is
  true in every context, the loop never starts more than \<open>N\<close> passes of its body, and
  when it completes it has made exactly \<open>N\<close>; it does complete or raise, whatever the
  bound on nested chains, when no child of the body is a CONDITION step. The handler
  enters this loop whenever \<open>loop_steps\<close> is not empty. The example is the loop with
  \<open>max_iterations = 3\<close> whose body counts into \<^verbatim>\<open>data["counter"]\<close>.
\<close>

theorem loop_boundedness:
  assumes "\<forall>env. \<exists>v. evaluate_loop_condition ev step env = Inr v \<and> truthy v"
    and "0 \<le> max_iterations step"
  shows "(\<forall>k r. loop_while fuel ev w step tools 0 ctx = Some (k, r) \<longrightarrow>
            k \<le> max_iterations step \<and> (\<forall>ctx'. r = Inr ctx' \<longrightarrow> k = max_iterations step)) \<and>
         ((\<forall>c \<in> set (the (loop_steps step)). \<forall>s. steps w c = Some s \<longrightarrow> step_type s \<noteq> CONDITION) \<longrightarrow>
            (\<exists>k r. loop_while fuel ev w step tools 0 ctx = Some (k, r))) \<and>
         (truthy_opt (loop_steps step) \<longrightarrow>
            run_loop_step fuel ev w step tools ctx =
              (case loop_while fuel ev w step tools 0 ctx of
                 None \<Rightarrow> None
               | Some (k, Inl ec) \<Rightarrow> Some (Inl ec)
               | Some (k, Inr ctx') \<Rightarrow> Some (Inr (None, ctx'))))"
proof (intro conjI impI allI)
  fix k r assume run: "loop_while fuel ev w step tools 0 ctx = Some (k, r)"
  from loop_while_bounds [OF run] assms(2) show "k \<le> max_iterations step" by simp
  fix ctx' assume "r = Inr ctx'"
  with run have "loop_while fuel ev w step tools 0 ctx = Some (k, Inr ctx')" by simp
  from loop_while_always_true [OF assms(1) this assms(2)] show "k = max_iterations step" .
next
  assume "\<forall>c \<in> set (the (loop_steps step)). \<forall>s. steps w c = Some s \<longrightarrow> step_type s \<noteq> CONDITION"
  then show "\<exists>k r. loop_while fuel ev w step tools 0 ctx = Some (k, r)"
    by (rule loop_while_total)
next
  assume "truthy_opt (loop_steps step)"
  then show "run_loop_step fuel ev w step tools ctx =
              (case loop_while fuel ev w step tools 0 ctx of
                 None \<Rightarrow> None
               | Some (k, Inl ec) \<Rightarrow> Some (Inl ec)
               | Some (k, Inr ctx') \<Rightarrow> Some (Inr (None, ctx')))"
    by (simp add: run_loop_step_def del: loop_while.simps)
qed

theorem loop_boundedness_witness:
  "(\<forall>env. \<exists>v. evaluate_loop_condition example_eval loop3_step env = Inr v \<and> truthy v) \<and>
   0 \<le> max_iterations loop3_step \<and> max_iterations loop3_step = 3 \<and>
   loop_while 0 example_eval loop3_workflow loop3_step inc_tools 0 empty_context =
     Some (3, Inr \<lparr>data = [(''counter'', VInt 3)],
                   step_results = [(''inc'', [(''result'', VInt 3), (''error'', VNone)])],
                   last_step_id = None, last_result = VInt 3\<rparr>) \<and>
   (\<exists>k r. loop_while 7 example_eval loop3_workflow loop3_step inc_tools 0 empty_context = Some (k, r)) \<and>
   run (Suc 0) example_eval loop3_workflow inc_tools None =
     Some ([''loop''], None,
           \<lparr>data = [(''counter'', VInt 3)],
            step_results = [(''inc'', [(''result'', VInt 3), (''error'', VNone)])],
            last_step_id = Some ''loop'', last_result = VInt 3\<rparr>) \<and>
   dict_get [(''counter'', VInt 3)] ''counter'' VNone = VInt 3"
proof -
  have h1: "\<forall>env. \<exists>v. evaluate_loop_condition example_eval loop3_step env = Inr v \<and> truthy v"
    by (simp add: evaluate_loop_condition_def loop3_step_def base_step_def always_true_def)
  have h2: "0 \<le> max_iterations loop3_step" and m: "max_iterations loop3_step = 3"
    by (simp_all add: loop3_step_def base_step_def)
  have kids: "\<forall>c \<in> set (the (loop_steps loop3_step)). \<forall>s.
      steps loop3_workflow c = Some s \<longrightarrow> step_type s \<noteq> CONDITION"
    by (simp add: loop3_step_def loop3_workflow_def inc_step_def base_step_def)
  note t = loop_boundedness [OF h1 h2, of _ loop3_workflow inc_tools empty_context]
  from t [of 7, THEN conjunct2, THEN conjunct1] kids
  have total: "\<exists>k r. loop_while 7 example_eval loop3_workflow loop3_step inc_tools 0 empty_context = Some (k, r)"
    by (rule mp)
  have r: "run (Suc 0) example_eval loop3_workflow inc_tools None =
     Some ([''loop''], None,
           \<lparr>data = [(''counter'', VInt 3)],
            step_results = [(''inc'', [(''result'', VInt 3), (''error'', VNone)])],
            last_step_id = Some ''loop'', last_result = VInt 3\<rparr>)"
    by (simp add: loop_example_defs tool_example_defs tool_eval_defs run_child_def get_step_def
        evaluate_loop_condition_def run_def run_current_def dispatch_step_def run_loop_step_def)
  have d: "dict_get [(''counter'', VInt 3)] ''counter'' VNone = VInt 3"
    by (simp add: dict_get_def)
  from h1 h2 m loop3_result total r d show ?thesis by blast
qed

section \<open>The cycle guard\<close>

lemma run_from_visited:
  "run_from n ev w tools visited ctx cur = Some (vis', e, ctx') \<Longrightarrow> distinct visited \<Longrightarrow>
   distinct vis' \<and> (\<exists>ys. vis' = visited @ ys)"
proof (induction n arbitrary: visited ctx cur)
  case 0
  then show ?case by (cases cur) (auto split: if_splits)
next
  case (Suc n)
  show ?case
  proof (cases cur)
    case None
    with Suc.prems show ?thesis by simp
  next
    case (Some c)
    show ?thesis
    proof (cases "c = [] \<or> c \<in> set visited")
      case True
      with Some Suc.prems show ?thesis by (auto split: if_splits)
    next
      case False
      then have d: "distinct (visited @ [c])" using Suc.prems(2) by simp
      from False Some Suc.prems(1) obtain r where
        r: "run_current n ev w tools ctx c = Some r"
        by (cases "run_current n ev w tools ctx c") auto
      show ?thesis
      proof (cases r)
        case (Inl ec)
        with False Some Suc.prems(1) r d show ?thesis by (cases ec) auto
      next
        case (Inr p)
        obtain nxt c1 where p: "p = (nxt, c1)" by (cases p)
        with False Some Suc.prems(1) r Inr
        have "run_from n ev w tools (visited @ [c]) c1 nxt = Some (vis', e, ctx')" by simp
        from Suc.IH [OF this d] show ?thesis by auto
      qed
    qed
  qed
qed

lemma run_from_traced_projection:
  "map_option (\<lambda>(v, x, e, c). (v, e, c)) (run_from_traced n ev w tools visited executed ctx cur) =
     run_from n ev w tools visited ctx cur"
proof (induction n arbitrary: visited executed ctx cur)
  case 0
  then show ?case by (cases cur) simp_all
next
  case (Suc n)
  show ?case
  proof (cases cur)
    case None
    then show ?thesis by simp
  next
    case (Some c)
    show ?thesis
    proof (cases "get_step w c")
      case (Inl e)
      with Some show ?thesis by (simp add: run_current_def)
    next
      case (Inr step)
      show ?thesis
      proof (cases "dispatch_step n ev w step tools (ctx\<lparr>last_step_id := Some (step_id step)\<rparr>)")
        case None
        with Some Inr show ?thesis by (simp add: run_current_def)
      next
        case d: (Some r)
        show ?thesis
        proof (cases r)
          case l: (Inl ec)
          with Some Inr d show ?thesis by (cases ec) (simp add: run_current_def)
        next
          case rr: (Inr p)
          with Some Inr d Suc.IH show ?thesis by (cases p) (simp add: run_current_def)
        qed
      qed
    qed
  qed
qed

lemma run_from_traced_record:
  assumes "run_from_traced n ev w tools visited executed ctx cur = Some (vis', exe', e, ctx')"
    and "distinct visited" and "map fst executed = visited"
    and "\<forall>p \<in> set executed. \<exists>s. steps w (fst p) = Some s \<and> step_id s = snd p"
  shows "distinct vis' \<and>
         (vis' = map fst exe' \<or>
          (\<exists>k m. vis' = map fst exe' @ [k] \<and> steps w k = None \<and> e = Some (KeyError m))) \<and>
         (\<forall>p \<in> set exe'. \<exists>s. steps w (fst p) = Some s \<and> step_id s = snd p) \<and>
         (\<exists>ys. exe' = executed @ ys)"
  using assms
proof (induction n arbitrary: visited executed ctx cur)
  case 0
  then show ?case by (cases cur) (auto split: if_splits)
next
  case (Suc n)
  note run = Suc.prems(1) and dv = Suc.prems(2) and fe = Suc.prems(3) and known = Suc.prems(4)
  show ?case
  proof (cases cur)
    case None
    with run dv fe known show ?thesis by auto
  next
    case (Some c)
    show ?thesis
    proof (cases "c = [] \<or> c \<in> set visited")
      case True
      with Some run dv fe known show ?thesis by (auto split: if_splits)
    next
      case False
      then have d: "distinct (visited @ [c])" using dv by simp
      show ?thesis
      proof (cases "steps w c")
        case n: None
        with False Some run have "vis' = visited @ [c]" "exe' = executed"
          "\<exists>m. e = Some (KeyError m)"
          by (auto simp: get_step_def)
        with d fe known n show ?thesis by auto
      next
        case st: (Some step)
        let ?exe = "executed @ [(c, step_id step)]"
        have fe': "map fst ?exe = visited @ [c]" using fe by simp
        have known': "\<forall>p \<in> set ?exe. \<exists>s. steps w (fst p) = Some s \<and> step_id s = snd p"
          using known st by auto
        from False Some st run obtain r where
          r: "dispatch_step n ev w step tools (ctx\<lparr>last_step_id := Some (step_id step)\<rparr>) = Some r"
          by (cases "dispatch_step n ev w step tools (ctx\<lparr>last_step_id := Some (step_id step)\<rparr>)")
             (auto simp: get_step_def)
        show ?thesis
        proof (cases r)
          case (Inl ec)
          with False Some st run r have "vis' = visited @ [c]" "exe' = ?exe"
            by (cases ec; simp add: get_step_def)+
          with d fe' known' show ?thesis by auto
        next
          case (Inr p)
          obtain nxt c1 where p: "p = (nxt, c1)" by (cases p)
          with False Some st run r Inr
          have "run_from_traced n ev w tools (visited @ [c]) ?exe c1 nxt = Some (vis', exe', e, ctx')"
            by (simp add: get_step_def)
          from Suc.IH [OF this d fe' known'] show ?thesis by auto
        qed
      qed
    qed
  qed
qed

lemma registered_ids_distinct:
  assumes "\<forall>p \<in> set exe. \<exists>s. steps w (fst p) = Some s \<and> step_id s = snd p"
    and "\<forall>k s. steps w k = Some s \<longrightarrow> step_id s = k"
    and "distinct (map fst exe)"
  shows "distinct (map snd exe)"
proof -
  from assms(1,2) have "\<forall>p \<in> set exe. snd p = fst p" by fastforce
  then have eq: "map snd exe = map fst exe" by simp
  show ?thesis by (simp only: eq assms(3))
qed

text \<open>
  C4: when the current step id of the top-level loop is already in \<open>visited\<close>,
  \<^verbatim>\<open>Workflow.run\<close> raises the \<^verbatim>\<open>RuntimeError\<close> whose text names this id, with
  the context and the record of dispatches as they were, so the step is not executed
  again. The record of dispatches of a run is the list \<open>visited\<close> (but for a last id
  that is not in the workflow): its current step ids are pairwise distinct, each is
  recorded with the id of the step registered under it, and when every step is
  registered under its own id, as \<^verbatim>\<open>add_step\<close> does, no step id is executed twice.
\<close>

theorem cycle_guard:
  "(c \<noteq> [] \<and> c \<in> set visited \<longrightarrow>
      run_from (Suc n) ev w tools visited ctx (Some c) =
        Some (visited,
          Some (RuntimeError (''Detected loop at step '' @ [CHR 0x27] @ c @ [CHR 0x27] @ '' in workflow '' @
           [CHR 0x27] @ wf_id w @ [CHR 0x27] @
           ''. Configure LOOP-type steps explicitly instead of cyclic references.'')),
          ctx) \<and>
      run_from_traced (Suc n) ev w tools visited executed ctx (Some c) =
        Some (visited, executed,
          Some (RuntimeError (''Detected loop at step '' @ [CHR 0x27] @ c @ [CHR 0x27] @ '' in workflow '' @
           [CHR 0x27] @ wf_id w @ [CHR 0x27] @
           ''. Configure LOOP-type steps explicitly instead of cyclic references.'')),
          ctx)) \<and>
   map_option (\<lambda>(v, x, e, c). (v, e, c)) (run_from_traced fuel ev w tools visited executed ctx cur) =
     run_from fuel ev w tools visited ctx cur \<and>
   (run_from_traced fuel ev w tools [] [] ctx cur = Some (vis', exe', e, ctx') \<longrightarrow>
      distinct vis' \<and>
      (vis' = map fst exe' \<or>
       (\<exists>k m. vis' = map fst exe' @ [k] \<and> steps w k = None \<and> e = Some (KeyError m))) \<and>
      distinct (map fst exe') \<and>
      (\<forall>p \<in> set exe'. \<exists>s. steps w (fst p) = Some s \<and> step_id s = snd p) \<and>
      ((\<forall>k s. steps w k = Some s \<longrightarrow> step_id s = k) \<longrightarrow> distinct (map snd exe')))"
proof (intro conjI impI)
  assume a: "c \<noteq> [] \<and> c \<in> set visited"
  then show "run_from (Suc n) ev w tools visited ctx (Some c) =
        Some (visited,
          Some (RuntimeError (''Detected loop at step '' @ [CHR 0x27] @ c @ [CHR 0x27] @ '' in workflow '' @
           [CHR 0x27] @ wf_id w @ [CHR 0x27] @
           ''. Configure LOOP-type steps explicitly instead of cyclic references.'')),
          ctx)"
    by (simp add: cycle_error_def quoted_def)
  from a show "run_from_traced (Suc n) ev w tools visited executed ctx (Some c) =
        Some (visited, executed,
          Some (RuntimeError (''Detected loop at step '' @ [CHR 0x27] @ c @ [CHR 0x27] @ '' in workflow '' @
           [CHR 0x27] @ wf_id w @ [CHR 0x27] @
           ''. Configure LOOP-type steps explicitly instead of cyclic references.'')),
          ctx)"
    by (simp add: cycle_error_def quoted_def)
next
  show "map_option (\<lambda>(v, x, e, c). (v, e, c)) (run_from_traced fuel ev w tools visited executed ctx cur) =
     run_from fuel ev w tools visited ctx cur"
    by (rule run_from_traced_projection)
next
  assume run: "run_from_traced fuel ev w tools [] [] ctx cur = Some (vis', exe', e, ctx')"
  have rec: "distinct vis' \<and>
         (vis' = map fst exe' \<or>
          (\<exists>k m. vis' = map fst exe' @ [k] \<and> steps w k = None \<and> e = Some (KeyError m))) \<and>
         (\<forall>p \<in> set exe'. \<exists>s. steps w (fst p) = Some s \<and> step_id s = snd p) \<and>
         (\<exists>ys. exe' = [] @ ys)"
    using run by (rule run_from_traced_record) simp_all
  then show "distinct vis'"
    and "vis' = map fst exe' \<or>
       (\<exists>k m. vis' = map fst exe' @ [k] \<and> steps w k = None \<and> e = Some (KeyError m))"
    and known: "\<forall>p \<in> set exe'. \<exists>s. steps w (fst p) = Some s \<and> step_id s = snd p"
    by blast+
  from rec show keys: "distinct (map fst exe')" by auto
  assume "\<forall>k s. steps w k = Some s \<longrightarrow> step_id s = k"
  with known keys show "distinct (map snd exe')"
    by (intro registered_ids_distinct [of exe' w]) simp_all
qed

lemma cyclic_run_traced:
  "run_from_traced (Suc (Suc (Suc 0))) example_eval cyclic_workflow Map.empty [] [] empty_context
      (Some ''a'') =
     Some ([''a'', ''b''], [(''a'', ''a''), (''b'', ''b'')],
           Some (RuntimeError (''Detected loop at step '' @ [CHR 0x27] @ ''a'' @ [CHR 0x27] @ '' in workflow '' @
           [CHR 0x27] @ wf_id cyclic_workflow @ [CHR 0x27] @
           ''. Configure LOOP-type steps explicitly instead of cyclic references.'')),
           empty_context\<lparr>last_step_id := Some ''b''\<rparr>)"
  by (simp add: cyclic_workflow_def cycle_a_def cycle_b_def base_step_def empty_context_def
        get_step_def dispatch_step_def run_condition_step_def evaluate_condition_def
        branch_steps_def cycle_error_def quoted_def)

theorem cycle_guard_witness:
  "''a'' \<noteq> [] \<and> ''a'' \<in> set [''a'', ''b''] \<and>
   run_from (Suc 0) example_eval cyclic_workflow Map.empty [''a'', ''b''] empty_context (Some ''a'') =
     Some ([''a'', ''b''],
           Some (RuntimeError (''Detected loop at step '' @ [CHR 0x27] @ ''a'' @ [CHR 0x27] @ '' in workflow '' @
           [CHR 0x27] @ wf_id cyclic_workflow @ [CHR 0x27] @
           ''. Configure LOOP-type steps explicitly instead of cyclic references.'')),
           empty_context) \<and>
   run_from_traced (Suc (Suc (Suc 0))) example_eval cyclic_workflow Map.empty [] [] empty_context
      (Some ''a'') =
     Some ([''a'', ''b''], [(''a'', ''a''), (''b'', ''b'')],
           Some (RuntimeError (''Detected loop at step '' @ [CHR 0x27] @ ''a'' @ [CHR 0x27] @ '' in workflow '' @
           [CHR 0x27] @ wf_id cyclic_workflow @ [CHR 0x27] @
           ''. Configure LOOP-type steps explicitly instead of cyclic references.'')),
           empty_context\<lparr>last_step_id := Some ''b''\<rparr>) \<and>
   run (Suc (Suc (Suc 0))) example_eval cyclic_workflow Map.empty None =
     Some ([''a'', ''b''],
           Some (RuntimeError (''Detected loop at step '' @ [CHR 0x27] @ ''a'' @ [CHR 0x27] @ '' in workflow '' @
           [CHR 0x27] @ wf_id cyclic_workflow @ [CHR 0x27] @
           ''. Configure LOOP-type steps explicitly instead of cyclic references.'')),
           empty_context\<lparr>last_step_id := Some ''b''\<rparr>) \<and>
   distinct [''a'', ''b''] \<and> distinct (map snd [(''a'', ''a''), (''b'', ''b'')])"
proof -
  have h: "''a'' \<noteq> [] \<and> ''a'' \<in> set [''a'', ''b'']" by simp
  note g = cycle_guard [where c = "''a''" and visited = "[''a'', ''b'']" and n = 0
      and ev = example_eval and w = cyclic_workflow and tools = Map.empty
      and fuel = "Suc (Suc (Suc 0))" and cur = "Some ''a''" and ctx = empty_context
      and executed = "[]" and vis' = "[''a'', ''b'']" and exe' = "[(''a'', ''a''), (''b'', ''b'')]"
      and ctx' = "empty_context\<lparr>last_step_id := Some ''b''\<rparr>"]
  from g [THEN conjunct1] h
  have r1: "run_from (Suc 0) example_eval cyclic_workflow Map.empty [''a'', ''b''] empty_context (Some ''a'') =
     Some ([''a'', ''b''],
           Some (RuntimeError (''Detected loop at step '' @ [CHR 0x27] @ ''a'' @ [CHR 0x27] @ '' in workflow '' @
           [CHR 0x27] @ wf_id cyclic_workflow @ [CHR 0x27] @
           ''. Configure LOOP-type steps explicitly instead of cyclic references.'')),
           empty_context)"
    by blast
  have wfd: "\<forall>k s. steps cyclic_workflow k = Some s \<longrightarrow> step_id s = k"
    by (simp add: cyclic_workflow_def cycle_a_def cycle_b_def base_step_def)
  from g [THEN conjunct2, THEN conjunct2, THEN mp, OF cyclic_run_traced] wfd
  have r2: "distinct [''a'', ''b''] \<and> distinct (map snd [(''a'', ''a''), (''b'', ''b'')])"
    by blast
  have r3: "run (Suc (Suc (Suc 0))) example_eval cyclic_workflow Map.empty None =
     Some ([''a'', ''b''],
           Some (RuntimeError (''Detected loop at step '' @ [CHR 0x27] @ ''a'' @ [CHR 0x27] @ '' in workflow '' @
           [CHR 0x27] @ wf_id cyclic_workflow @ [CHR 0x27] @
           ''. Configure LOOP-type steps explicitly instead of cyclic references.'')),
           empty_context\<lparr>last_step_id := Some ''b''\<rparr>)"
    by (simp add: run_def cyclic_workflow_def cycle_a_def cycle_b_def base_step_def empty_context_def
          run_current_def get_step_def dispatch_step_def run_condition_step_def evaluate_condition_def
          branch_steps_def cycle_error_def quoted_def)
  from h r1 cyclic_run_traced r3 r2 show ?thesis by blast
qed

section \<open>Who writes \<open>step_results\<close>\<close>









section \<open>Failures of condition evaluation\<close>

lemma evaluate_condition_expr:
  "condition step = None \<Longrightarrow>
   evaluate_condition ev step context =
     (if truthy_opt (condition_expression step)
      then (case ev (the (condition_expression step)) context of Inl e \<Rightarrow> Inr (VBool False) | Inr v \<Rightarrow> Inr v)
      else Inr (VBool True))"
  by (simp add: evaluate_condition_def)

lemma evaluate_condition_fun:
  "condition step = Some f \<Longrightarrow> evaluate_condition ev step context = f context"
  by (simp add: evaluate_condition_def)

lemma evaluate_loop_condition_expr:
  "loop_condition step = None \<Longrightarrow>
   evaluate_loop_condition ev step context =
     (if truthy_opt (loop_expression step)
      then (case ev (the (loop_expression step)) context of Inl e \<Rightarrow> Inr (VBool False) | Inr v \<Rightarrow> Inr v)
      else Inr (VBool False))"
  by (simp add: evaluate_loop_condition_def)

lemma evaluate_loop_condition_fun:
  "loop_condition step = Some f \<Longrightarrow> evaluate_loop_condition ev step context = f context"
  by (simp add: evaluate_loop_condition_def)

lemma evaluate_condition_expr_total:
  "condition step = None \<Longrightarrow> \<exists>v. evaluate_condition ev step context = Inr v"
  by (cases "ev (the (condition_expression step)) context") (simp_all add: evaluate_condition_expr)

lemma evaluate_loop_condition_expr_total:
  "loop_condition step = None \<Longrightarrow> \<exists>v. evaluate_loop_condition ev step context = Inr v"
  by (cases "ev (the (loop_expression step)) context") (simp_all add: evaluate_loop_condition_expr)

text \<open>
  C6, as the code has it: a predicate given as a textual expression always yields a
  value, and an expression whose evaluation raises yields false, for CONDITION and for
  LOOP alike; a predicate given as an injected function is called outside any handler,
  so the step's evaluation is whatever the function returns or raises.
\<close>

theorem expression_failure_is_false:
  "(condition step = None \<longrightarrow>
      (\<exists>v. evaluate_condition ev step context = Inr v) \<and>
      (\<forall>e. truthy_opt (condition_expression step) \<and>
            ev (the (condition_expression step)) context = Inl e \<longrightarrow>
            evaluate_condition ev step context = Inr (VBool False))) \<and>
   (loop_condition step = None \<longrightarrow>
      (\<exists>v. evaluate_loop_condition ev step context = Inr v) \<and>
      (\<forall>e. truthy_opt (loop_expression step) \<and>
            ev (the (loop_expression step)) context = Inl e \<longrightarrow>
            evaluate_loop_condition ev step context = Inr (VBool False))) \<and>
   (\<forall>f. condition step = Some f \<longrightarrow> evaluate_condition ev step context = f context) \<and>
   (\<forall>f. loop_condition step = Some f \<longrightarrow> evaluate_loop_condition ev step context = f context)"
proof (intro conjI impI allI)
  assume "condition step = None"
  then show "\<exists>v. evaluate_condition ev step context = Inr v"
    by (rule evaluate_condition_expr_total)
next
  fix e
  assume "condition step = None"
    and "truthy_opt (condition_expression step) \<and> ev (the (condition_expression step)) context = Inl e"
  then show "evaluate_condition ev step context = Inr (VBool False)"
    by (simp add: evaluate_condition_expr)
next
  assume "loop_condition step = None"
  then show "\<exists>v. evaluate_loop_condition ev step context = Inr v"
    by (rule evaluate_loop_condition_expr_total)
next
  fix e
  assume "loop_condition step = None"
    and "truthy_opt (loop_expression step) \<and> ev (the (loop_expression step)) context = Inl e"
  then show "evaluate_loop_condition ev step context = Inr (VBool False)"
    by (simp add: evaluate_loop_condition_expr)
next
  fix f assume "condition step = Some f"
  then show "evaluate_condition ev step context = f context"
    by (rule evaluate_condition_fun)
next
  fix f assume "loop_condition step = Some f"
  then show "evaluate_loop_condition ev step context = f context"
    by (rule evaluate_loop_condition_fun)
qed

theorem expression_failure_is_false_witness:
  "condition malformed_condition_step = None \<and>
   truthy_opt (condition_expression malformed_condition_step) \<and>
   example_eval (the (condition_expression malformed_condition_step)) [] = Inl (SyntaxError ''invalid syntax'') \<and>
   evaluate_condition example_eval malformed_condition_step [] = Inr (VBool False) \<and>
   condition raising_condition_step = Some raising_predicate \<and>
   evaluate_condition example_eval raising_condition_step [] = raising_predicate []"
  using expression_failure_is_false [of malformed_condition_step example_eval "[]"]
    expression_failure_is_false [of raising_condition_step example_eval "[]"]
  by (simp add: malformed_condition_step_def raising_condition_step_def base_step_def example_eval_def)

text \<open>An injected predicate that raises: the exception leaves \<^verbatim>\<open>evaluate_condition\<close>
  and the whole run.\<close>

theorem raising_predicate_propagates:
  "evaluate_condition example_eval raising_condition_step (step_env empty_context)
     = Inl (CallableException ''sum_result'') \<and>
   run (Suc 0) example_eval (single_step_workflow raising_condition_step) Map.empty None
     = Some ([''check''], Some (CallableException ''sum_result''),
             empty_context\<lparr>last_step_id := Some ''check''\<rparr>)"
  by (simp add: example_defs evaluate_condition_def run_def run_current_def get_step_def
        dispatch_step_def run_condition_step_def step_env_def)

section \<open>Template resolution of \<^verbatim>\<open>${context.k}\<close> and of list indices\<close>

lemma split_on_not_Nil: "split_on c s \<noteq> []"
  by (induction s) (auto split: list.splits)

lemma join_split: "join_with [c] (split_on c s) = s"
proof (induction s)
  case Nil
  then show ?case by simp
next
  case (Cons x xs)
  show ?case
  proof (cases "x = c")
    case True
    with Cons show ?thesis
      by (cases "split_on c xs") (simp_all add: split_on_not_Nil)
  next
    case False
    obtain p ps where sp: "split_on c xs = p # ps"
      using split_on_not_Nil [of c xs] by (cases "split_on c xs") auto
    with Cons False show ?thesis by (cases ps) auto
  qed
qed

lemma split_on_prefix:
  "c \<notin> set p \<Longrightarrow> split_on c (p @ c # s) = p # split_on c s"
  by (induction p) auto

lemma context_template_lookup:
  "resolve_value (VStr (''${context.'' @ k @ ''}'')) (step_env ctx) =
     Inr (dict_get (step_env ctx) k VNone)"
proof -
  have t: "is_template (''${context.'' @ k @ ''}'')" by (simp add: is_template_def)
  have p: "template_path (''${context.'' @ k @ ''}'') = ''context'' @ CHR ''.'' # k"
    by (simp add: template_path_def butlast_append)
  have s: "split_on CHR ''.'' (''context'' @ CHR ''.'' # k) = ''context'' # split_on CHR ''.'' k"
    by (rule split_on_prefix) simp
  have j: "join_with ''.'' (split_on CHR ''.'' k) = k" by (rule join_split)
  show ?thesis
    by (simp only: resolve_value.simps t p if_True resolve_path_def s Let_def list.sel j) simp
qed

lemma context_template_lookup_values:
  "resolve_value (VStr (''${context.'' @ k @ ''}'')) (step_env ctx) =
     Inr (if k = ''context'' then VDict (data ctx)
          else if k = ''step_results''
               then VDict (map (\<lambda>kd. (fst kd, VDict (snd kd))) (step_results ctx))
          else VNone)"
  by (simp only: context_template_lookup) (simp add: step_env_def dict_get_def)

text \<open>
  C7: for every key \<open>k\<close> the template \<^verbatim>\<open>${context.k}\<close> is looked up in the dictionary
  with the two keys \<^verbatim>\<open>context\<close> and \<^verbatim>\<open>step_results\<close>, so it resolves to
  \<^verbatim>\<open>None\<close> for every other \<open>k\<close>, whatever \<^verbatim>\<open>context.data\<close> holds: with
  \<^verbatim>\<open>context.data = {"k": 1}\<close> it resolves to \<^verbatim>\<open>None\<close>, not to 1. And a list index
  past the end in a dotted path raises \<^verbatim>\<open>IndexError\<close>.
\<close>

theorem template_context_key_and_index:
  "resolve_value (VStr (''${context.'' @ k @ ''}'')) (step_env ctx) =
     Inr (if k = ''context'' then VDict (data ctx)
          else if k = ''step_results''
               then VDict (map (\<lambda>kd. (fst kd, VDict (snd kd))) (step_results ctx))
          else VNone) \<and>
   resolve_value (VStr ''${context.k}'') (step_env (empty_context\<lparr>data := [(''k'', VInt 1)]\<rparr>)) = Inr VNone \<and>
   resolve_value (VStr ''${s.result.5}'')
     (step_env (empty_context\<lparr>step_results :=
        [(''s'', [(''result'', VList [VInt 1, VInt 2, VInt 3]), (''error'', VNone)])]\<rparr>))
     = Inl (IndexError ''list index out of range'')"
proof (intro conjI)
  show "resolve_value (VStr (''${context.'' @ k @ ''}'')) (step_env ctx) =
     Inr (if k = ''context'' then VDict (data ctx)
          else if k = ''step_results''
               then VDict (map (\<lambda>kd. (fst kd, VDict (snd kd))) (step_results ctx))
          else VNone)"
    by (rule context_template_lookup_values)
  show "resolve_value (VStr ''${context.k}'') (step_env (empty_context\<lparr>data := [(''k'', VInt 1)]\<rparr>)) = Inr VNone"
    by (simp add: empty_context_def step_env_def is_template_def template_path_def resolve_path_def
        dict_get_def)
  show "resolve_value (VStr ''${s.result.5}'')
     (step_env (empty_context\<lparr>step_results :=
        [(''s'', [(''result'', VList [VInt 1, VInt 2, VInt 3]), (''error'', VNone)])]\<rparr>))
     = Inl (IndexError ''list index out of range'')"
    by (simp add: empty_context_def step_env_def is_template_def template_path_def resolve_path_def
        dict_get_def isdigit_def int_of_digits_def ascii_digit_def)
qed

section \<open>The CONDITION handler\<close>

lemma run_condition_step_value:
  assumes "evaluate_condition ev step (step_env ctx) = Inr v"
  shows "run_condition_step ev step ctx =
     (case (if truthy v then on_true step else on_false step) of
        None \<Rightarrow> Inr (None, ctx)
      | Some [] \<Rightarrow> Inr (None, ctx)
      | Some [x] \<Rightarrow> Inr (Some x, ctx)
      | Some (x # y # ys) \<Rightarrow>
          Inl (ValueError (''Step '' @ [CHR 0x27] @ step_id step @ [CHR 0x27] @
                 (if truthy v then '' on_true'' else '' on_false'') @
                 '' has multiple next steps defined. Use a dedicated PARALLEL step for fan-out.''), ctx))"
  using assms
  by (simp add: run_condition_step_def branch_steps_def multiple_next_error_def branch_name_def
        quoted_def Let_def split: option.splits list.splits)

lemma run_from_condition_step:
  assumes "c \<noteq> []" and "c \<notin> set visited" and "steps w c = Some step"
    and "step_type step = CONDITION"
  shows "run_from (Suc n) ev w tools visited ctx (Some c) =
     (case run_condition_step ev step (ctx\<lparr>last_step_id := Some (step_id step)\<rparr>) of
        Inl (e, ctx') \<Rightarrow> Some (visited @ [c], Some e, ctx')
      | Inr (next_step_id, ctx') \<Rightarrow> run_from n ev w tools (visited @ [c]) ctx' next_step_id)"
  using assms by (simp add: run_from_step dispatch_step_def del: run_from.simps)

text \<open>
  C8: once the condition has a value \<open>v\<close>, the CONDITION handler selects \<open>on_true\<close>
  when \<open>v\<close> is true and \<open>on_false\<close> when it is false; an absent or empty selection
  ends the traversal normally, a selection of exactly one id makes it the next current
  step, and a selection of more than one id raises the configuration error that names
  the step and the branch, with the context untouched; at top level that error leaves
  \<^verbatim>\<open>Workflow.run\<close> at once, with no further step dispatched.
\<close>

theorem condition_step_branching:
  assumes "evaluate_condition ev step (step_env ctx) = Inr v"
    and "toplevel = (c \<noteq> [] \<and> c \<notin> set visited \<and> steps w c = Some step \<and> step_type step = CONDITION)"
  shows
   "(truthy v \<longrightarrow>
      (on_true step = None \<or> on_true step = Some [] \<longrightarrow>
         run_condition_step ev step ctx = Inr (None, ctx) \<and>
         (toplevel \<longrightarrow> run_from (Suc n) ev w tools visited ctx (Some c) =
            Some (visited @ [c], None, ctx\<lparr>last_step_id := Some (step_id step)\<rparr>))) \<and>
      (\<forall>x. on_true step = Some [x] \<longrightarrow>
         run_condition_step ev step ctx = Inr (Some x, ctx) \<and>
         (toplevel \<longrightarrow> run_from (Suc n) ev w tools visited ctx (Some c) =
            run_from n ev w tools (visited @ [c]) (ctx\<lparr>last_step_id := Some (step_id step)\<rparr>) (Some x))) \<and>
      (\<forall>x y ys. on_true step = Some (x # y # ys) \<longrightarrow>
         run_condition_step ev step ctx =
           Inl (ValueError (''Step '' @ [CHR 0x27] @ step_id step @ [CHR 0x27] @
                 '' on_true has multiple next steps defined. Use a dedicated PARALLEL step for fan-out.''), ctx) \<and>
         (toplevel \<longrightarrow> run_from (Suc n) ev w tools visited ctx (Some c) =
            Some (visited @ [c],
                  Some (ValueError (''Step '' @ [CHR 0x27] @ step_id step @ [CHR 0x27] @
                 '' on_true has multiple next steps defined. Use a dedicated PARALLEL step for fan-out.'')),
                  ctx\<lparr>last_step_id := Some (step_id step)\<rparr>)))) \<and>
    (\<not> truthy v \<longrightarrow>
      (on_false step = None \<or> on_false step = Some [] \<longrightarrow>
         run_condition_step ev step ctx = Inr (None, ctx) \<and>
         (toplevel \<longrightarrow> run_from (Suc n) ev w tools visited ctx (Some c) =
            Some (visited @ [c], None, ctx\<lparr>last_step_id := Some (step_id step)\<rparr>))) \<and>
      (\<forall>x. on_false step = Some [x] \<longrightarrow>
         run_condition_step ev step ctx = Inr (Some x, ctx) \<and>
         (toplevel \<longrightarrow> run_from (Suc n) ev w tools visited ctx (Some c) =
            run_from n ev w tools (visited @ [c]) (ctx\<lparr>last_step_id := Some (step_id step)\<rparr>) (Some x))) \<and>
      (\<forall>x y ys. on_false step = Some (x # y # ys) \<longrightarrow>
         run_condition_step ev step ctx =
           Inl (ValueError (''Step '' @ [CHR 0x27] @ step_id step @ [CHR 0x27] @
                 '' on_false has multiple next steps defined. Use a dedicated PARALLEL step for fan-out.''), ctx) \<and>
         (toplevel \<longrightarrow> run_from (Suc n) ev w tools visited ctx (Some c) =
            Some (visited @ [c],
                  Some (ValueError (''Step '' @ [CHR 0x27] @ step_id step @ [CHR 0x27] @
                 '' on_false has multiple next steps defined. Use a dedicated PARALLEL step for fan-out.'')),
                  ctx\<lparr>last_step_id := Some (step_id step)\<rparr>))))"
proof -
  let ?ctx = "ctx\<lparr>last_step_id := Some (step_id step)\<rparr>"
  note h = run_condition_step_value [OF assms(1)]
  have "evaluate_condition ev step (step_env ?ctx) = Inr v" using assms(1) by simp
  note h' = run_condition_step_value [OF this]
  have r: "toplevel \<Longrightarrow> run_from (Suc n) ev w tools visited ctx (Some c) =
     (case run_condition_step ev step ?ctx of
        Inl (e, ctx') \<Rightarrow> Some (visited @ [c], Some e, ctx')
      | Inr (next_step_id, ctx') \<Rightarrow> run_from n ev w tools (visited @ [c]) ctx' next_step_id)"
    using assms(2) by (intro run_from_condition_step) simp_all
  show ?thesis
  proof (cases "truthy v")
    case True
    then show ?thesis
      by (auto simp: h h' r simp del: run_from.simps(2,3))
  next
    case False
    then show ?thesis
      by (auto simp: h h' r simp del: run_from.simps(2,3))
  qed
qed

lemma false_condition_eval:
  "evaluate_condition example_eval false_condition_step (step_env empty_context) = Inr (VBool False)"
  by (simp add: evaluate_condition_def false_condition_step_def base_step_def example_eval_def)

theorem condition_step_branching_witness:
  "evaluate_condition example_eval two_way_condition_step (step_env empty_context) = Inr (VBool True) \<and>
   truthy (VBool True) \<and> on_true two_way_condition_step = Some [''a'', ''b''] \<and>
   run_condition_step example_eval two_way_condition_step empty_context =
     Inl (ValueError (''Step '' @ [CHR 0x27] @ ''fork'' @ [CHR 0x27] @
            '' on_true has multiple next steps defined. Use a dedicated PARALLEL step for fan-out.''),
          empty_context) \<and>
   run_from (Suc 0) example_eval (single_step_workflow two_way_condition_step) Map.empty [] empty_context
       (Some ''fork'') =
     Some ([''fork''],
           Some (ValueError (''Step '' @ [CHR 0x27] @ ''fork'' @ [CHR 0x27] @
             '' on_true has multiple next steps defined. Use a dedicated PARALLEL step for fan-out.'')),
           empty_context\<lparr>last_step_id := Some ''fork''\<rparr>) \<and>
   evaluate_condition example_eval false_condition_step (step_env empty_context) = Inr (VBool False) \<and>
   on_true false_condition_step = Some [''a''] \<and> on_false false_condition_step = Some [''b''] \<and>
   run_condition_step example_eval false_condition_step empty_context = Inr (Some ''b'', empty_context)"
proof -
  have s: "steps (single_step_workflow two_way_condition_step) ''fork'' = Some two_way_condition_step"
    "step_type two_way_condition_step = CONDITION" "step_id two_way_condition_step = ''fork''"
    "on_true two_way_condition_step = Some [''a'', ''b'']"
    by (simp_all add: single_step_workflow_def two_way_condition_step_def base_step_def)
  have f: "on_true false_condition_step = Some [''a'']" "on_false false_condition_step = Some [''b'']"
    by (simp_all add: false_condition_step_def base_step_def)
  have tp: "True = (''fork'' \<noteq> [] \<and> ''fork'' \<notin> set [] \<and>
      steps (single_step_workflow two_way_condition_step) ''fork'' = Some two_way_condition_step \<and>
      step_type two_way_condition_step = CONDITION)"
    using s by simp
  note t = condition_step_branching [OF two_way_eval tp, where n = 0 and tools = Map.empty,
      THEN conjunct1, THEN mp, THEN conjunct2, THEN conjunct2, THEN spec, THEN spec, THEN spec, THEN mp]
  have t1: "truthy (VBool True)" by simp
  from t [OF t1 s(4)] s(3)
  have r: "run_condition_step example_eval two_way_condition_step empty_context =
     Inl (ValueError (''Step '' @ [CHR 0x27] @ ''fork'' @ [CHR 0x27] @
            '' on_true has multiple next steps defined. Use a dedicated PARALLEL step for fan-out.''),
          empty_context) \<and>
   run_from (Suc 0) example_eval (single_step_workflow two_way_condition_step) Map.empty [] empty_context
       (Some ''fork'') =
     Some ([''fork''],
           Some (ValueError (''Step '' @ [CHR 0x27] @ ''fork'' @ [CHR 0x27] @
             '' on_true has multiple next steps defined. Use a dedicated PARALLEL step for fan-out.'')),
           empty_context\<lparr>last_step_id := Some ''fork''\<rparr>)"
    by simp
  note u = condition_step_branching [OF false_condition_eval refl,
      THEN conjunct2, THEN mp, THEN conjunct2, THEN conjunct1, THEN spec, THEN mp, THEN conjunct1]
  have u1: "\<not> truthy (VBool False)" by simp
  from u [OF u1 f(2)]
  have q: "run_condition_step example_eval false_condition_step empty_context = Inr (Some ''b'', empty_context)" .
  from two_way_eval t1 s(4) r false_condition_eval f q show ?thesis by blast
qed

section \<open>The pointers \<open>last_step_id\<close> and \<open>last_result\<close>\<close>

text \<open>
  C9, as the code has it: after the dispatch of a top-level step, whatever its type and
  outcome, \<open>last_step_id\<close> is the id of that top-level step; the children of a PARALLEL
  or LOOP body and the TOOL handler itself leave \<open>last_step_id\<close> as it was; after a
  TOOL step whose tool was called, \<open>last_result\<close> is the tool's result, or
  \<^verbatim>\<open>None\<close> when validation or execution failed; a CONDITION step leaves
  \<open>last_result\<close> as it was.
\<close>

theorem last_step_id_top_level_only:
  "(steps w c = Some step \<and> run_current fuel ev w tools ctx c = Some r \<longrightarrow>
      last_step_id (outcome_ctx r) = Some (step_id step)) \<and>
   (run_children fuel ev w tools ctx children = Some r' \<longrightarrow>
      last_step_id (result_ctx r') = last_step_id ctx) \<and>
   last_step_id (outcome_ctx (run_tool_step step tools ctx)) = last_step_id ctx \<and>
   (tool_name step = Some tn \<and> tn \<noteq> [] \<and> tools tn = Some t \<and>
    resolve_params_of (tool_params step) (step_env ctx) = Inr params \<longrightarrow>
      last_result (outcome_ctx (run_tool_step step tools ctx)) =
        (case call_tool t step params of Inr v \<Rightarrow> v | Inl e \<Rightarrow> VNone)) \<and>
   last_result (outcome_ctx (run_condition_step ev step ctx)) = last_result ctx"
proof (intro conjI impI)
  let ?R = "\<lambda>a b. last_step_id b = last_step_id a"
  have tool: "\<And>s c. step_type s = TOOL \<Longrightarrow> s \<in> ran (steps w) \<Longrightarrow>
                 ?R c (outcome_ctx (run_tool_step s tools c))"
    by (simp add: run_tool_step_last_step_id)
  {
    assume a: "steps w c = Some step \<and> run_current fuel ev w tools ctx c = Some r"
    let ?ctx = "ctx\<lparr>last_step_id := Some (step_id step)\<rparr>"
    from a have "steps w c = Some step" and "run_current fuel ev w tools ctx c = Some r"
      by simp_all
    then have d: "dispatch_step fuel ev w step tools ?ctx = Some r"
      by (simp add: run_current_def get_step_def)
    have "?R ?ctx (outcome_ctx r)"
    proof (rule dispatch_step_frame [where R = ?R and w = w and tools = tools and step = step])
      show "\<And>s c. step_type s = TOOL \<Longrightarrow> s \<in> ran (steps w) \<Longrightarrow>
                 ?R c (outcome_ctx (run_tool_step s tools c))" by (rule tool)
      show "step \<in> ran (steps w)" using a by (auto simp: ran_def)
      show "dispatch_step fuel ev w step tools ?ctx = Some r" by (rule d)
    qed simp_all
    then show "last_step_id (outcome_ctx r) = Some (step_id step)" by simp
  }
  {
    assume "run_children fuel ev w tools ctx children = Some r'"
    then show "last_step_id (result_ctx r') = last_step_id ctx"
      using tool by (intro run_children_frame [where R = ?R and w = w and tools = tools]) simp_all
  }
  show "last_step_id (outcome_ctx (run_tool_step step tools ctx)) = last_step_id ctx"
    by (rule run_tool_step_last_step_id)
  {
    assume a: "tool_name step = Some tn \<and> tn \<noteq> [] \<and> tools tn = Some t \<and>
      resolve_params_of (tool_params step) (step_env ctx) = Inr params"
    then show "last_result (outcome_ctx (run_tool_step step tools ctx)) =
        (case call_tool t step params of Inr v \<Rightarrow> v | Inl e \<Rightarrow> VNone)"
      by (simp add: run_tool_step_def record_result_def Let_def split: sum.splits)
  }
  show "last_result (outcome_ctx (run_condition_step ev step ctx)) = last_result ctx"
    by (simp add: run_condition_step_ctx)
qed

theorem last_step_id_top_level_only_witness:
  "steps group_workflow ''group'' = Some group_step \<and>
   run_current 0 example_eval group_workflow inc_tools empty_context ''group'' =
     Some (Inr (None, \<lparr>data = [(''counter'', VInt 1)],
                 step_results = [(''inc'', [(''result'', VInt 1), (''error'', VNone)])],
                 last_step_id = Some ''group'', last_result = VInt 1\<rparr>)) \<and>
   last_step_id (outcome_ctx (Inr (None :: string option, \<lparr>data = [(''counter'', VInt 1)],
                 step_results = [(''inc'', [(''result'', VInt 1), (''error'', VNone)])],
                 last_step_id = Some ''group'', last_result = VInt 1\<rparr>))) = Some (step_id group_step) \<and>
   tool_name inc_step = Some ''inc'' \<and> ''inc'' \<noteq> [] \<and> inc_tools ''inc'' = Some counter_tool \<and>
   resolve_params_of (tool_params inc_step) (step_env empty_context) = Inr [(''prev'', VNone)] \<and>
   call_tool counter_tool inc_step [(''prev'', VNone)] = Inr (VInt 1) \<and>
   last_result (outcome_ctx (run_tool_step inc_step inc_tools empty_context)) = VInt 1"
proof -
  let ?after = "\<lparr>data = [(''counter'', VInt 1)],
                 step_results = [(''inc'', [(''result'', VInt 1), (''error'', VNone)])],
                 last_step_id = Some ''group'', last_result = VInt 1\<rparr>"
  have s: "steps group_workflow ''group'' = Some group_step"
    by (simp add: group_workflow_def)
  have rc: "run_current 0 example_eval group_workflow inc_tools empty_context ''group'' =
     Some (Inr (None, ?after))"
  proof -
    have i: "step_id group_step = ''group''" by (simp add: group_step_def base_step_def)
    have "run_current 0 example_eval group_workflow inc_tools empty_context ''group'' =
       dispatch_step 0 example_eval group_workflow group_step inc_tools
         (empty_context\<lparr>last_step_id := Some ''group''\<rparr>)"
      by (simp add: run_current_def get_step_def s i)
    also have "\<dots> = Some (Inr (None, ?after))"
      by (simp only: group_dispatch) (simp add: tool_example_defs tool_eval_defs)
    finally show ?thesis .
  qed
  have h: "tool_name inc_step = Some ''inc''" "''inc'' \<noteq> []" "inc_tools ''inc'' = Some counter_tool"
    "resolve_params_of (tool_params inc_step) (step_env empty_context) = Inr [(''prev'', VNone)]"
    "call_tool counter_tool inc_step [(''prev'', VNone)] = Inr (VInt 1)"
    by (simp_all add: tool_example_defs tool_eval_defs)
  note t = last_step_id_top_level_only [where w = group_workflow and c = "''group''"
      and step = group_step and fuel = 0 and ev = example_eval and tools = inc_tools
      and ctx = empty_context and r = "Inr (None, ?after)"]
  from s rc have "steps group_workflow ''group'' = Some group_step \<and>
      run_current 0 example_eval group_workflow inc_tools empty_context ''group'' = Some (Inr (None, ?after))"
    by blast
  with t [THEN conjunct1]
  have a: "last_step_id (outcome_ctx (Inr (None :: string option, ?after))) = Some (step_id group_step)"
    by (rule mp)
  note u = last_step_id_top_level_only [where step = inc_step and tools = inc_tools
      and ctx = empty_context and tn = "''inc''" and t = counter_tool and params = "[(''prev'', VNone)]"]
  from h have "tool_name inc_step = Some ''inc'' \<and> ''inc'' \<noteq> [] \<and> inc_tools ''inc'' = Some counter_tool \<and>
      resolve_params_of (tool_params inc_step) (step_env empty_context) = Inr [(''prev'', VNone)]"
    by blast
  with u [THEN conjunct2, THEN conjunct2, THEN conjunct2, THEN conjunct1]
  have "last_result (outcome_ctx (run_tool_step inc_step inc_tools empty_context)) =
      (case call_tool counter_tool inc_step [(''prev'', VNone)] of Inr v \<Rightarrow> v | Inl e \<Rightarrow> VNone)"
    by (rule mp)
  with h(5) have b: "last_result (outcome_ctx (run_tool_step inc_step inc_tools empty_context)) = VInt 1"
    by simp
  from s rc a h b show ?thesis by blast
qed

text \<open>A PARALLEL step with one TOOL child: after the run the child is the step executed
  last, and \<open>last_step_id\<close> is the id of the group.\<close>

theorem parallel_child_keeps_last_step_id:
  "run (Suc 0) example_eval group_workflow [''inc'' \<mapsto> counter_tool] None =
     Some ([''group''], None,
           \<lparr>data = [(''counter'', VInt 1)],
            step_results = [(''inc'', [(''result'', VInt 1), (''error'', VNone)])],
            last_step_id = Some ''group'', last_result = VInt 1\<rparr>)"
  by (simp add: run_def group_workflow_def group_step_def inc_step_def counter_tool_def base_step_def
        empty_context_def run_current_def get_step_def dispatch_step_def run_parallel_step_def
        run_child_def run_tool_step_def resolve_params_of_def step_env_def is_template_def
        template_path_def resolve_path_def dict_get_def call_tool_def record_result_def)

section \<open>Condition defaults\<close>

text \<open>
  C10: the two defaults differ. A step with neither a condition function nor a condition
  expression evaluates its condition to true, so as a CONDITION step it takes the
  \<open>on_true\<close> branch; a step with neither a loop condition nor a loop expression
  evaluates its loop condition to false, so as a LOOP step it runs zero iterations and
  leaves the context as it was.
\<close>

theorem condition_defaults_differ:
  "(condition step = None \<and> condition_expression step = None \<longrightarrow>
      evaluate_condition ev step context = Inr (VBool True) \<and>
      run_condition_step ev step ctx =
        (if \<not> truthy_opt (on_true step) then Inr (None, ctx)
         else if length (the (on_true step)) > 1 then Inl (multiple_next_error step (VBool True), ctx)
         else Inr (Some (hd (the (on_true step))), ctx))) \<and>
   (loop_condition step = None \<and> loop_expression step = None \<longrightarrow>
      evaluate_loop_condition ev step context = Inr (VBool False) \<and>
      loop_while fuel ev w step tools 0 ctx = Some (0, Inr ctx) \<and>
      run_loop_step fuel ev w step tools ctx = Some (Inr (None, ctx)))"
  by (simp add: evaluate_condition_def evaluate_loop_condition_def run_condition_step_def
        run_loop_step_def branch_steps_def)

theorem condition_defaults_differ_witness:
  "condition plain_condition_step = None \<and> condition_expression plain_condition_step = None \<and>
   evaluate_condition example_eval plain_condition_step [] = Inr (VBool True) \<and>
   run_condition_step example_eval plain_condition_step empty_context = Inr (Some ''next'', empty_context) \<and>
   loop_condition plain_loop_step = None \<and> loop_expression plain_loop_step = None \<and>
   evaluate_loop_condition example_eval plain_loop_step [] = Inr (VBool False) \<and>
   loop_while 0 example_eval (single_step_workflow plain_loop_step) plain_loop_step Map.empty 0 empty_context
     = Some (0, Inr empty_context) \<and>
   run_loop_step 0 example_eval (single_step_workflow plain_loop_step) plain_loop_step Map.empty empty_context
     = Some (Inr (None, empty_context))"
  using condition_defaults_differ [of plain_condition_step example_eval "[]" empty_context]
    condition_defaults_differ [of plain_loop_step example_eval "[]" empty_context 0
      "single_step_workflow plain_loop_step" Map.empty]
  by (simp add: plain_condition_step_def plain_loop_step_def base_step_def)

end
